theory Spec2Isabelle
  imports Complex_Main
begin

section \<open>JavaScript numbers\<close>

text \<open>
  The calculator hook \<^verbatim>\<open>useCalculator\<close> keeps its display as a string and its
  registers as JavaScript numbers, and moves between the two with \<^verbatim>\<open>parseFloat\<close> and
  \<^verbatim>\<open>String\<close>. A number is an IEEE-754 binary64 value: a finite value is kept as the
  rational it denotes (\<open>Num 0\<close> is \<open>+0\<close>), the negative zero, the two infinities and
  NaN are constructors of their own. Every arithmetic result is rounded to the nearest
  binary64 value, ties to even, by \<open>round_double\<close>.
\<close>

datatype number = Num rat | NegZero | Infinity | NegInfinity | NaN

fun js_neg :: "number \<Rightarrow> number" where
  "js_neg NaN = NaN"
| "js_neg Infinity = NegInfinity"
| "js_neg NegInfinity = Infinity"
| "js_neg NegZero = Num 0"
| "js_neg (Num q) = (if q = 0 then NegZero else Num (- q))"

text \<open>
  \<open>ilen b x\<close> is the number of digits of a positive integer in base \<open>b\<close>, and
  \<open>ilog b q\<close> the integer logarithm of a positive rational: the \<open>e\<close> with
  \<open>b\<^sup>e \<le> q < b\<^sup>e\<^sup>+\<^sup>1\<close>.
\<close>

function ilen :: "int \<Rightarrow> int \<Rightarrow> int" where
  "ilen b x = (if 0 < x \<and> 1 < b then ilen b (x div b) + 1 else 0)"
  by pat_completeness auto
termination
  by (relation "measure (\<lambda>(b, x). nat x)") (auto simp: int_div_less_self)

declare ilen.simps [simp del]

definition ilog :: "int \<Rightarrow> rat \<Rightarrow> int" where
  "ilog b q = (let (n, d) = quotient_of q; e = ilen b n - ilen b d
               in if of_int b powi e \<le> q then e else e - 1)"

text \<open>
  Rounding. A positive rational \<open>q\<close> with \<open>2\<^sup>e \<le> q < 2\<^sup>e\<^sup>+\<^sup>1\<close> becomes the nearest
  multiple \<open>m \<cdot> 2\<^sup>p\<close> of its unit in the last place, ties to the even \<open>m\<close>, where
  \<open>p = e - 52\<close> for a normal number and \<open>p = -1074\<close> for a subnormal one. The result is
  \<open>Infinity\<close> when it reaches \<open>2\<^sup>1\<^sup>0\<^sup>2\<^sup>4\<close>: when \<open>p > 971\<close>, or \<open>p = 971\<close> and
  \<open>m = 2\<^sup>5\<^sup>3\<close>. A negative rational is rounded by its magnitude and may underflow to
  the negative zero.
\<close>

definition round_half_even :: "rat \<Rightarrow> int" where
  "round_half_even r = (let f = \<lfloor>r\<rfloor>; d = r - of_int f in
     if d < 1 / 2 then f else if 1 / 2 < d then f + 1 else if even f then f else f + 1)"

definition round_pos :: "rat \<Rightarrow> number" where
  "round_pos q = (let e = ilog 2 q; p = max (e - 52) (- 1074);
                      m = round_half_even (q / 2 powi p); v = of_int m * 2 powi p
                  in if 971 < p \<or> (p = 971 \<and> 2 ^ 53 \<le> m) then Infinity else Num v)"

definition round_double :: "rat \<Rightarrow> number" where
  "round_double q =
     (if q = 0 then Num 0 else if q < 0 then js_neg (round_pos (- q)) else round_pos q)"

text \<open>
  The operators \<^verbatim>\<open>+\<close>, \<^verbatim>\<open>-\<close>, \<^verbatim>\<open>*\<close> and \<^verbatim>\<open>/\<close> on numbers, with the IEEE-754 cases
  for NaN, the infinities and the signed zeros; \<open>or_zero x\<close> is \<^verbatim>\<open>x || 0\<close>, which
  replaces the falsy numbers (both zeros and NaN) by \<open>+0\<close>.
\<close>

fun val :: "number \<Rightarrow> rat" where
  "val (Num q) = q"
| "val _ = 0"

fun is_neg :: "number \<Rightarrow> bool" where
  "is_neg (Num q) = (q < 0)"
| "is_neg NegZero = True"
| "is_neg NegInfinity = True"
| "is_neg _ = False"

fun is_zero :: "number \<Rightarrow> bool" where
  "is_zero (Num q) = (q = 0)"
| "is_zero NegZero = True"
| "is_zero _ = False"

fun is_inf :: "number \<Rightarrow> bool" where
  "is_inf Infinity = True"
| "is_inf NegInfinity = True"
| "is_inf _ = False"

definition signed_zero :: "bool \<Rightarrow> number" where
  "signed_zero neg = (if neg then NegZero else Num 0)"

definition signed_inf :: "bool \<Rightarrow> number" where
  "signed_inf neg = (if neg then NegInfinity else Infinity)"

definition js_add :: "number \<Rightarrow> number \<Rightarrow> number" where
  "js_add x y =
     (if x = NaN \<or> y = NaN then NaN
      else if is_inf x then (if is_inf y \<and> x \<noteq> y then NaN else x)
      else if is_inf y then y
      else if x = NegZero \<and> y = NegZero then NegZero
      else round_double (val x + val y))"

definition js_sub :: "number \<Rightarrow> number \<Rightarrow> number" where
  "js_sub x y = js_add x (js_neg y)"

definition js_mul :: "number \<Rightarrow> number \<Rightarrow> number" where
  "js_mul x y =
     (if x = NaN \<or> y = NaN then NaN
      else if is_inf x \<or> is_inf y then
        (if is_zero x \<or> is_zero y then NaN else signed_inf (is_neg x \<noteq> is_neg y))
      else if is_zero x \<or> is_zero y then signed_zero (is_neg x \<noteq> is_neg y)
      else round_double (val x * val y))"

definition js_div :: "number \<Rightarrow> number \<Rightarrow> number" where
  "js_div x y =
     (if x = NaN \<or> y = NaN then NaN
      else if is_inf x then (if is_inf y then NaN else signed_inf (is_neg x \<noteq> is_neg y))
      else if is_inf y then signed_zero (is_neg x \<noteq> is_neg y)
      else if is_zero y then (if is_zero x then NaN else signed_inf (is_neg x \<noteq> is_neg y))
      else if is_zero x then signed_zero (is_neg x \<noteq> is_neg y)
      else round_double (val x / val y))"

definition or_zero :: "number \<Rightarrow> number" where
  "or_zero x = (if x = NaN \<or> is_zero x then Num 0 else x)"

text \<open>
  \<^verbatim>\<open>String(x)\<close> on a number. For a positive finite \<open>x\<close> the language takes integers
  \<open>n\<close>, \<open>k\<close> and \<open>s\<close> with \<open>k \<ge> 1\<close>, \<open>10\<^sup>k\<^sup>-\<^sup>1 \<le> s < 10\<^sup>k\<close>, the number
  \<open>s \<cdot> 10\<^sup>n\<^sup>-\<^sup>k\<close> rounding to \<open>x\<close> and \<open>k\<close> as small as possible (the closest such
  \<open>s\<close>, the even one on a tie), and prints the digits of \<open>s\<close> in the notation that
  \<open>n\<close> selects. \<open>candidate q n0 k\<close> tries the two decimals of \<open>k\<close> digits around
  \<open>q\<close>, and \<open>shortest\<close> searches \<open>k = 1, 2, \<dots>\<close> up to seventeen digits, which always
  suffice for a binary64 value; its last equation, the exact decimal expansion of \<open>q\<close>,
  makes the function total without an appeal to that fact.
\<close>

definition digit_char :: "int \<Rightarrow> char" where
  "digit_char d = char_of (48 + d mod 10)"

definition digit_val :: "char \<Rightarrow> int" where
  "digit_val c = of_char c - 48"

definition is_digit :: "char \<Rightarrow> bool" where
  "is_digit c = (48 \<le> (of_char c :: int) \<and> (of_char c :: int) \<le> 57)"

function digits_of :: "int \<Rightarrow> string" where
  "digits_of n =
     (if n < 10 then [digit_char n] else digits_of (n div 10) @ [digit_char (n mod 10)])"
  by pat_completeness auto
termination
  by (relation "measure nat") auto

declare digits_of.simps [simp del]

definition digits_val :: "string \<Rightarrow> int" where
  "digits_val ds = foldl (\<lambda>a c. 10 * a + digit_val c) 0 ds"

definition candidate :: "rat \<Rightarrow> int \<Rightarrow> int \<Rightarrow> (int \<times> int) option" where
  "candidate q n0 k =
     (let sc = 10 powi (n0 - k); lo = \<lfloor>q / sc\<rfloor>; hi = lo + 1;
          oklo = (round_double (of_int lo * sc) = Num q);
          okhi = (round_double (of_int hi * sc) = Num q);
          dlo = q - of_int lo * sc; dhi = of_int hi * sc - q
      in if okhi \<and> (\<not> oklo \<or> dhi < dlo \<or> (dhi = dlo \<and> even hi))
         then Some (if hi = 10 ^ nat k then (10 ^ nat (k - 1), n0 + 1) else (hi, n0))
         else if oklo then Some (lo, n0) else None)"

definition exact_digits :: "rat \<Rightarrow> int \<times> int" where
  "exact_digits q =
     (let e = ilog 2 q; p = max (e - 52) (- 1074); m = round_half_even (q / 2 powi p);
          s = (if 0 \<le> p then m * 2 ^ nat p else m * 5 ^ nat (- p))
      in (s, int (length (digits_of s)) + min p 0))"

fun shortest :: "rat \<Rightarrow> int \<Rightarrow> int \<Rightarrow> nat \<Rightarrow> int \<times> int" where
  "shortest q n0 k 0 = exact_digits q"
| "shortest q n0 k (Suc fuel) =
     (case candidate q n0 k of Some sn \<Rightarrow> sn | None \<Rightarrow> shortest q n0 (k + 1) fuel)"

definition format_decimal :: "string \<Rightarrow> int \<Rightarrow> string" where
  "format_decimal ds n =
     (let k = int (length ds) in
      if - 5 \<le> n \<and> n \<le> 21 then
        (if k \<le> n then ds @ replicate (nat (n - k)) CHR ''0''
         else if 0 < n then take (nat n) ds @ ''.'' @ drop (nat n) ds
         else ''0.'' @ replicate (nat (- n)) CHR ''0'' @ ds)
      else
        (let e = n - 1; es = (if e < 0 then ''-'' else ''+'') @ digits_of \<bar>e\<bar>
         in if k = 1 then ds @ ''e'' @ es else take 1 ds @ ''.'' @ drop 1 ds @ ''e'' @ es))"

definition pos_to_string :: "rat \<Rightarrow> string" where
  "pos_to_string q =
     (let (s, n) = shortest q (ilog 10 q + 1) 1 17 in format_decimal (digits_of s) n)"

fun js_String :: "number \<Rightarrow> string" where
  "js_String NaN = ''NaN''"
| "js_String NegZero = ''0''"
| "js_String Infinity = ''Infinity''"
| "js_String NegInfinity = ''-Infinity''"
| "js_String (Num q) =
     (if q = 0 then ''0'' else if q < 0 then ''-'' @ pos_to_string (- q) else pos_to_string q)"

text \<open>
  \<^verbatim>\<open>parseFloat(str)\<close>: leading white space (here the white-space and line-terminator
  code units below 256) is skipped, the longest prefix that is a
  decimal literal is read (an optional sign, then \<^verbatim>\<open>Infinity\<close> or digits with an optional
  fraction and an optional exponent), and its value is rounded; the result is NaN when no
  prefix is a literal. An exponent mark with no digits after it is not part of the prefix.
\<close>

definition is_white :: "char \<Rightarrow> bool" where
  "is_white c =
     (c \<in> set [CHR 0x09, CHR 0x0A, CHR 0x0B, CHR 0x0C, CHR 0x0D, CHR 0x20, CHR 0xA0])"

definition parse_exponent :: "string \<Rightarrow> int" where
  "parse_exponent r =
     (case r of
        [] \<Rightarrow> 0
      | c # r1 \<Rightarrow>
          if c = CHR ''e'' \<or> c = CHR ''E'' then
            (case r1 of
               [] \<Rightarrow> 0
             | d # r2 \<Rightarrow>
                 if d = CHR ''-'' then - digits_val (takeWhile is_digit r2)
                 else if d = CHR ''+'' then digits_val (takeWhile is_digit r2)
                 else digits_val (takeWhile is_digit r1))
          else 0)"

definition parse_unsigned :: "string \<Rightarrow> rat option" where
  "parse_unsigned u =
     (let ip = takeWhile is_digit u; r1 = dropWhile is_digit u;
          fp = (case r1 of
                  [] \<Rightarrow> []
                | c # r \<Rightarrow> if c = CHR ''.'' then takeWhile is_digit r else []);
          r2 = (case r1 of
                  [] \<Rightarrow> []
                | c # r \<Rightarrow> if c = CHR ''.'' then dropWhile is_digit r else r1)
      in if ip = [] \<and> fp = [] then None
         else Some (of_int (digits_val (ip @ fp))
                    * 10 powi (parse_exponent r2 - int (length fp))))"

definition parseFloat :: "string \<Rightarrow> number" where
  "parseFloat str =
     (let t = dropWhile is_white str;
          neg = (case t of [] \<Rightarrow> False | c # _ \<Rightarrow> c = CHR ''-'');
          u = (case t of
                 [] \<Rightarrow> []
               | c # r \<Rightarrow> if c = CHR ''-'' \<or> c = CHR ''+'' then r else t);
          v = (if take 8 u = ''Infinity'' then Infinity
               else case parse_unsigned u of None \<Rightarrow> NaN | Some q \<Rightarrow> round_double q)
      in if neg then js_neg v else v)"


section \<open>The calculator state and its commands\<close>

text \<open>
  The six state hooks of \<^verbatim>\<open>useCalculator\<close>. Every handler runs in the closure of the
  latest render, so a sequence of button presses is a sequence of state transformers.
  A string is a list of code units; the operator keys \<^verbatim>\<open>U+00D7\<close> and \<^verbatim>\<open>U+00F7\<close> are
  the characters \<open>CHR 0xD7\<close> and \<open>CHR 0xF7\<close>.
\<close>

record state =
  display :: string
  storedValue :: "number option"
  operator :: "string option"
  waitingForOperand :: bool
  memory :: number
  history :: "string list"

definition initial :: state where
  "initial = \<lparr>display = ''0'', storedValue = None, operator = None,
               waitingForOperand = False, memory = Num 0, history = []\<rparr>"

definition times_key :: string where
  "times_key = [CHR 0xD7]"

definition divide_key :: string where
  "divide_key = [CHR 0xF7]"

definition clearAll :: "state \<Rightarrow> state" where
  "clearAll s = s\<lparr>display := ''0'', storedValue := None, operator := None,
                   waitingForOperand := False\<rparr>"

definition clearDisplay :: "state \<Rightarrow> state" where
  "clearDisplay s = s\<lparr>display := ''0'', waitingForOperand := False\<rparr>"

definition toggleSign :: "state \<Rightarrow> state" where
  "toggleSign s = s\<lparr>display := js_String (js_neg (parseFloat (display s)))\<rparr>"

definition inputPercent :: "state \<Rightarrow> state" where
  "inputPercent s = s\<lparr>display := js_String (js_div (parseFloat (display s)) (Num 100))\<rparr>"

definition inputDot :: "state \<Rightarrow> state" where
  "inputDot s =
     (if waitingForOperand s then s\<lparr>display := ''0.'', waitingForOperand := False\<rparr>
      else if CHR ''.'' \<notin> set (display s) then s\<lparr>display := display s @ ''.''\<rparr>
      else s)"

definition inputDigit :: "string \<Rightarrow> state \<Rightarrow> state" where
  "inputDigit digit s =
     (if waitingForOperand s then s\<lparr>display := digit, waitingForOperand := False\<rparr>
      else s\<lparr>display := (if display s = ''0'' then digit else display s @ digit)\<rparr>)"

text \<open>The \<^verbatim>\<open>switch\<close> of \<^verbatim>\<open>performOperation\<close>, with its \<^verbatim>\<open>default\<close> branch.\<close>

definition switch_operator :: "string \<Rightarrow> number \<Rightarrow> number \<Rightarrow> number" where
  "switch_operator op currentValue inputValue =
     (if op = ''+'' then js_add currentValue inputValue
      else if op = ''-'' then js_sub currentValue inputValue
      else if op = times_key then js_mul currentValue inputValue
      else if op = divide_key then js_div currentValue inputValue
      else inputValue)"

text \<open>
  The template literal that becomes the history line. In \<^verbatim>\<open>performOperation\<close> the test
  \<^verbatim>\<open>if (operator)\<close> fails for \<^verbatim>\<open>null\<close> and for the empty string, and
  \<^verbatim>\<open>storedValue || 0\<close> replaces the falsy numbers (both zeros and NaN) by \<open>+0\<close>.
\<close>

definition history_line :: "number \<Rightarrow> string \<Rightarrow> number \<Rightarrow> number \<Rightarrow> string" where
  "history_line currentValue op inputValue newValue =
     js_String currentValue @ '' '' @ op @ '' '' @ js_String inputValue @ '' = '' @ js_String newValue"

definition performOperation :: "string \<Rightarrow> state \<Rightarrow> state" where
  "performOperation nextOperator s =
     (let inputValue = parseFloat (display s);
          s1 = (case storedValue s of
                  None \<Rightarrow> s\<lparr>storedValue := Some inputValue\<rparr>
                | Some sv \<Rightarrow>
                    (case operator s of
                       None \<Rightarrow> s
                     | Some op \<Rightarrow>
                         if op = [] then s
                         else
                           (let currentValue = or_zero sv;
                                newValue = switch_operator op currentValue inputValue
                            in s\<lparr>storedValue := Some newValue,
                                 display := js_String newValue,
                                 history := history s @
                                   [history_line currentValue op inputValue newValue]\<rparr>)))
      in s1\<lparr>waitingForOperand := True, operator := Some nextOperator\<rparr>)"

definition handleMemoryAdd :: "state \<Rightarrow> state" where
  "handleMemoryAdd s = s\<lparr>memory := js_add (memory s) (parseFloat (display s))\<rparr>"

definition handleMemorySubtract :: "state \<Rightarrow> state" where
  "handleMemorySubtract s = s\<lparr>memory := js_sub (memory s) (parseFloat (display s))\<rparr>"

definition handleMemoryRecall :: "state \<Rightarrow> state" where
  "handleMemoryRecall s = s\<lparr>display := js_String (memory s), waitingForOperand := True\<rparr>"

definition handleMemoryClear :: "state \<Rightarrow> state" where
  "handleMemoryClear s = s\<lparr>memory := Num 0\<rparr>"

text \<open>
  The keypad of \<^verbatim>\<open>CalculatorBody\<close>: one command per kind of button. The digit keys pass
  the one-character strings \<^verbatim>\<open>'0'\<close> to \<^verbatim>\<open>'9'\<close>.
\<close>

datatype digit = D0 | D1 | D2 | D3 | D4 | D5 | D6 | D7 | D8 | D9

fun digit_string :: "digit \<Rightarrow> string" where
  "digit_string D0 = ''0''"
| "digit_string D1 = ''1''"
| "digit_string D2 = ''2''"
| "digit_string D3 = ''3''"
| "digit_string D4 = ''4''"
| "digit_string D5 = ''5''"
| "digit_string D6 = ''6''"
| "digit_string D7 = ''7''"
| "digit_string D8 = ''8''"
| "digit_string D9 = ''9''"

datatype command =
    MemoryClear | MemoryRecall | MemoryAdd | MemorySubtract
  | ClearAll | ClearDisplay | ToggleSign | InputPercent | InputDot
  | InputDigit digit | PerformOperation string

fun exec :: "command \<Rightarrow> state \<Rightarrow> state" where
  "exec MemoryClear s = handleMemoryClear s"
| "exec MemoryRecall s = handleMemoryRecall s"
| "exec MemoryAdd s = handleMemoryAdd s"
| "exec MemorySubtract s = handleMemorySubtract s"
| "exec ClearAll s = clearAll s"
| "exec ClearDisplay s = clearDisplay s"
| "exec ToggleSign s = toggleSign s"
| "exec InputPercent s = inputPercent s"
| "exec InputDot s = inputDot s"
| "exec (InputDigit d) s = inputDigit (digit_string d) s"
| "exec (PerformOperation next_op) s = performOperation next_op s"

definition run :: "command list \<Rightarrow> state \<Rightarrow> state" where
  "run cmds s = foldl (\<lambda>st c. exec c st) s cmds"

section \<open>The first calculator of the repository\<close>

text \<open>
  \<^verbatim>\<open>src/App.tsx\<close> holds an earlier \<^verbatim>\<open>Calculator\<close> component with no memory and no
  history. Its digit keys pass numbers, its \<^verbatim>\<open>switch\<close> leaves \<^verbatim>\<open>newValue\<close> at \<open>0\<close>
  in the \<^verbatim>\<open>default\<close> branch, and its equals key goes through \<^verbatim>\<open>handleEquals\<close>.
\<close>

record calculator =
  displayValue :: string
  storedValue_app :: "number option"
  operator_app :: "string option"
  waitingForOperand_app :: bool

definition initial_app :: calculator where
  "initial_app = \<lparr>displayValue = ''0'', storedValue_app = None, operator_app = None,
                   waitingForOperand_app = False\<rparr>"

definition inputDigit_app :: "number \<Rightarrow> calculator \<Rightarrow> calculator" where
  "inputDigit_app digit c =
     (if waitingForOperand_app c
      then c\<lparr>displayValue := js_String digit, waitingForOperand_app := False\<rparr>
      else c\<lparr>displayValue :=
               (if displayValue c = ''0'' then js_String digit
                else displayValue c @ js_String digit)\<rparr>)"

definition switch_operator_app :: "string \<Rightarrow> number \<Rightarrow> number \<Rightarrow> number" where
  "switch_operator_app op currentValue inputValue =
     (if op = ''+'' then js_add currentValue inputValue
      else if op = ''-'' then js_sub currentValue inputValue
      else if op = times_key then js_mul currentValue inputValue
      else if op = divide_key then js_div currentValue inputValue
      else Num 0)"

definition performOperation_app :: "string \<Rightarrow> calculator \<Rightarrow> calculator" where
  "performOperation_app nextOperator c =
     (let inputValue = parseFloat (displayValue c);
          c1 = (case storedValue_app c of
                  None \<Rightarrow> c\<lparr>storedValue_app := Some inputValue\<rparr>
                | Some sv \<Rightarrow>
                    (case operator_app c of
                       None \<Rightarrow> c
                     | Some op \<Rightarrow>
                         if op = [] then c
                         else
                           (let currentValue = or_zero sv;
                                newValue = switch_operator_app op currentValue inputValue
                            in c\<lparr>storedValue_app := Some newValue,
                                 displayValue := js_String newValue\<rparr>)))
      in c1\<lparr>waitingForOperand_app := True, operator_app := Some nextOperator\<rparr>)"

definition handleEquals :: "calculator \<Rightarrow> calculator" where
  "handleEquals c =
     (case operator_app c of
        None \<Rightarrow> c
      | Some op \<Rightarrow>
          if op \<noteq> [] \<and> \<not> waitingForOperand_app c
          then (performOperation_app ''='' c)\<lparr>operator_app := None\<rparr>
          else c)"

section \<open>Predicates of the properties\<close>

text \<open>The display invariant: at most one decimal point.\<close>

definition one_dot :: "state \<Rightarrow> bool" where
  "one_dot s = (count_list (display s) CHR ''.'' \<le> 1)"

text \<open>
  A number is a binary64 value when rounding leaves it unchanged. Two numbers are
  numerically equal, as \<^verbatim>\<open>===\<close> compares them, when neither is NaN and they are the same
  or both are zeros.
\<close>

definition is_double :: "number \<Rightarrow> bool" where
  "is_double x = (case x of Num q \<Rightarrow> round_double q = Num q | _ \<Rightarrow> True)"

definition num_eq :: "number \<Rightarrow> number \<Rightarrow> bool" where
  "num_eq x y = (x \<noteq> NaN \<and> y \<noteq> NaN \<and> (x = y \<or> (is_zero x \<and> is_zero y)))"

section \<open>Rounding to binary64\<close>

text \<open>
  \<open>ilog b q\<close> is the integer logarithm of a positive rational, and a value that
  \<open>round_double\<close> returns is a fixed point of \<open>round_double\<close>.
\<close>

lemma ilen_bounds:
  assumes "0 < x" "1 < b"
  shows "1 \<le> ilen b x \<and> b ^ nat (ilen b x - 1) \<le> x \<and> x < b ^ nat (ilen b x)"
  using assms
proof (induction b x rule: ilen.induct)
  case (1 b x)
  show ?case
  proof (cases "x < b")
    case True
    then have "x div b = 0" using 1 by simp
    then have "ilen b x = 1" using 1 by (simp add: ilen.simps [of b x] ilen.simps [of b 0])
    then show ?thesis using True 1 by simp
  next
    case False
    then have pos: "0 < x div b" using 1
      by (simp add: pos_imp_zdiv_pos_iff)
    have dm: "x = b * (x div b) + x mod b" by simp
    have m0: "0 \<le> x mod b" "x mod b < b" using 1 by simp_all
    let ?l = "ilen b (x div b)"
    have ih: "1 \<le> ?l \<and> b ^ nat (?l - 1) \<le> x div b \<and> x div b < b ^ nat ?l"
      using 1 pos by simp
    have l: "ilen b x = ?l + 1" using 1 by (simp add: ilen.simps [of b x])
    have e: "nat ?l = Suc (nat (?l - 1))" using ih by arith
    have "b ^ nat ?l = b * b ^ nat (?l - 1)" by (subst e) simp
    also have "\<dots> \<le> b * (x div b)" using ih 1 by simp
    also have "\<dots> \<le> x" using dm m0 by linarith
    finally have lo: "b ^ nat ?l \<le> x" .
    have "b * (x div b + 1) = b * (x div b) + b" by (simp add: algebra_simps)
    then have "x < b * (x div b + 1)" using dm m0 by linarith
    also have "\<dots> \<le> b * b ^ nat ?l" using ih 1 by simp
    finally have hi: "x < b ^ nat (?l + 1)" using ih by (simp add: nat_add_distrib)
    show ?thesis using l lo hi ih by simp
  qed
qed

lemma of_int_power_nat_powi:
  assumes "1 \<le> l" "0 < b"
  shows "(of_int (b ^ nat (l - 1)) :: rat) = of_int b powi (l - 1)"
    and "(of_int (b ^ nat l) :: rat) = of_int b powi l"
  using assms by (simp_all add: power_int_def)

lemma ilog_bounds:
  assumes q: "0 < q" and b: "1 < b"
  shows "of_int b powi (ilog b q) \<le> q \<and> q < of_int b powi (ilog b q + 1)"
proof -
  obtain n d where nd: "quotient_of q = (n, d)" by (cases "quotient_of q")
  have d: "0 < d" using nd quotient_of_denom_pos by blast
  have qe: "q = of_int n / of_int d" using nd quotient_of_div by blast
  have n: "0 < n" using q d qe by (simp add: zero_less_divide_iff)
  let ?B = "of_int b :: rat"
  have B: "1 < ?B" using b by simp
  let ?ln = "ilen b n" and ?ld = "ilen b d"
  have bn: "1 \<le> ?ln \<and> b ^ nat (?ln - 1) \<le> n \<and> n < b ^ nat ?ln"
    using ilen_bounds [OF n b] .
  have bd: "1 \<le> ?ld \<and> b ^ nat (?ld - 1) \<le> d \<and> d < b ^ nat ?ld"
    using ilen_bounds [OF d b] .
  have b0: "0 < b" using b by simp
  have n1: "?B powi (?ln - 1) \<le> of_int n"
    using bn of_int_power_nat_powi(1) [of ?ln b] b0
    by (metis of_int_le_iff)
  have n2: "of_int n < ?B powi ?ln"
    using bn of_int_power_nat_powi(2) [of ?ln b] b0
    by (metis of_int_less_iff)
  have d1: "?B powi (?ld - 1) \<le> of_int d"
    using bd of_int_power_nat_powi(1) [of ?ld b] b0
    by (metis of_int_le_iff)
  have d2: "of_int d < ?B powi ?ld"
    using bd of_int_power_nat_powi(2) [of ?ld b] b0
    by (metis of_int_less_iff)
  let ?e = "?ln - ?ld"
  have Bpos: "\<And>k. 0 < ?B powi k" using B by simp
  have dq: "(0::rat) < of_int d" using d by simp
  have up: "q < ?B powi (?e + 1)"
  proof -
    have "q * of_int d = of_int n" using qe dq by simp
    also have "\<dots> < ?B powi ?ln" by (rule n2)
    also have "\<dots> = ?B powi (?e + 1) * ?B powi (?ld - 1)"
      using B by (simp flip: power_int_add)
    also have "\<dots> \<le> ?B powi (?e + 1) * of_int d"
      using d1 Bpos [of "?e + 1"] by (simp add: mult_left_mono)
    finally show ?thesis using dq by simp
  qed
  have lo: "?B powi (?e - 1) < q"
  proof -
    have "?B powi (?e - 1) * of_int d < ?B powi (?e - 1) * ?B powi ?ld"
      using d2 Bpos [of "?e - 1"] by (simp add: mult_strict_left_mono)
    also have "\<dots> = ?B powi (?ln - 1)"
      using B by (simp flip: power_int_add)
    also have "\<dots> \<le> of_int n" by (rule n1)
    also have "\<dots> = q * of_int d" using qe dq by simp
    finally show ?thesis using dq by simp
  qed
  show ?thesis
  proof (cases "?B powi ?e \<le> q")
    case True
    then have "ilog b q = ?e" by (simp add: ilog_def nd)
    then show ?thesis using True up by simp
  next
    case False
    then have "ilog b q = ?e - 1" by (simp add: ilog_def nd)
    then show ?thesis using False lo by simp
  qed
qed

lemma ilog_unique:
  assumes "0 < q" "1 < b" "of_int b powi e \<le> q" "q < of_int b powi (e + 1)"
  shows "ilog b q = e"
proof -
  let ?B = "of_int b :: rat"
  have B: "1 < ?B" using assms by simp
  have h: "?B powi (ilog b q) \<le> q \<and> q < ?B powi (ilog b q + 1)"
    using ilog_bounds assms by blast
  have "?B powi (ilog b q) < ?B powi (e + 1)" using h assms by simp
  then have a: "ilog b q < e + 1"
    using B by (metis linorder_not_less power_int_increasing less_imp_le)
  have "?B powi e < ?B powi (ilog b q + 1)" using h assms by simp
  then have c: "e < ilog b q + 1"
    using B by (metis linorder_not_less power_int_increasing less_imp_le)
  show ?thesis using a c by simp
qed

lemma round_half_even_of_int: "round_half_even (of_int i) = i"
  by (simp add: round_half_even_def)

lemma round_half_even_ge:
  assumes "of_int a \<le> r"
  shows "a \<le> round_half_even r"
proof -
  have "a \<le> \<lfloor>r\<rfloor>" using assms by (simp add: le_floor_iff)
  then show ?thesis by (simp add: round_half_even_def Let_def)
qed

lemma round_half_even_le:
  assumes "r \<le> of_int b"
  shows "round_half_even r \<le> b"
proof (cases "r = of_int b")
  case True
  then show ?thesis by (simp add: round_half_even_of_int)
next
  case False
  then have "r < of_int b" using assms by simp
  then have "\<lfloor>r\<rfloor> < b" by (simp add: floor_less_iff)
  then show ?thesis by (simp add: round_half_even_def Let_def)
qed

lemma round_pos_unfold:
  "round_pos q =
     (if 971 < max (ilog 2 q - 52) (- 1074)
         \<or> (max (ilog 2 q - 52) (- 1074) = 971
            \<and> 2 ^ 53 \<le> round_half_even (q / 2 powi max (ilog 2 q - 52) (- 1074)))
      then Infinity
      else Num (of_int (round_half_even (q / 2 powi max (ilog 2 q - 52) (- 1074)))
                * 2 powi max (ilog 2 q - 52) (- 1074)))"
  by (simp only: round_pos_def Let_def)

lemma round_pos_exact:
  assumes v: "v = of_int m * 2 powi p" and m: "0 < m"
    and e: "ilog 2 v = e" and p: "p = max (e - 52) (- 1074)"
    and nov: "\<not> (971 < p \<or> (p = 971 \<and> 2 ^ 53 \<le> m))"
  shows "round_pos v = Num v"
proof -
  have "v / 2 powi p = of_int m" using v by simp
  then have "round_half_even (v / 2 powi max (ilog 2 v - 52) (- 1074)) = m"
    using e p by (simp add: round_half_even_of_int)
  then show ?thesis
    using nov e p v by (simp add: round_pos_unfold)
qed

lemma round_pos_fixed:
  assumes q: "0 < q" and r: "round_pos q = Num v"
  shows "v = 0 \<or> (0 < v \<and> round_pos v = Num v)"
proof -
  define e where "e = ilog 2 q"
  define p where "p = max (e - 52) (- 1074)"
  define m where "m = round_half_even (q / 2 powi p)"
  have rp: "round_pos q = (if 971 < p \<or> (p = 971 \<and> 2 ^ 53 \<le> m) then Infinity
                           else Num (of_int m * 2 powi p))"
    unfolding m_def p_def e_def by (rule round_pos_unfold)
  have nov: "\<not> (971 < p \<or> (p = 971 \<and> 2 ^ 53 \<le> m))" and v: "v = of_int m * 2 powi p"
    using r rp by (auto split: if_splits)
  have eb: "2 powi e \<le> q" "q < 2 powi (e + 1)"
    using ilog_bounds [OF q, of 2] by (simp_all add: e_def)
  have P: "0 < (2::rat) powi p" by simp
  have "(of_int 0 :: rat) \<le> q / 2 powi p" using q by simp
  then have m0: "0 \<le> m" unfolding m_def by (rule round_half_even_ge)
  show ?thesis
  proof (cases "m = 0")
    case True
    then show ?thesis using v by simp
  next
    case False
    then have mpos: "0 < m" using m0 by simp
    have vpos: "0 < v" using v mpos by simp
    have "round_pos v = Num v"
    proof (cases "- 1074 \<le> e - 52")
      case True
      then have pe: "p = e - 52" by (simp add: p_def)
      have e52: "e = 52 + p" and e53: "e + 1 = 53 + p" using pe by simp_all
      have E: "(2::rat) powi e = 2 powi 52 * 2 powi p"
        unfolding e52 by (rule power_int_add) simp
      have E1: "(2::rat) powi (e + 1) = 2 powi 53 * 2 powi p"
        unfolding e53 by (rule power_int_add) simp
      have "of_int (2 ^ 52) * 2 powi p \<le> q" using eb(1) E by simp
      then have lo: "of_int (2 ^ 52) \<le> q / 2 powi p"
        using P by (simp only: pos_le_divide_eq)
      have "q \<le> of_int (2 ^ 53) * 2 powi p" using eb(2) E1 by simp
      then have hi: "q / 2 powi p \<le> of_int (2 ^ 53)"
        using P by (simp only: pos_divide_le_eq)
      have mlo: "2 ^ 52 \<le> m" unfolding m_def using lo by (rule round_half_even_ge)
      have mhi: "m \<le> 2 ^ 53" unfolding m_def using hi by (rule round_half_even_le)
      show ?thesis
      proof (cases "m = 2 ^ 53")
        case True
        have v2: "v = 2 powi (e + 1)"
          using v True E1 by simp
        have "(2::rat) powi (p + 1) = 2 powi p * 2" by (simp add: power_int_add)
        then have v3: "v = of_int (2 ^ 52) * 2 powi (p + 1)"
          using v True by simp
        have i: "ilog 2 v = e + 1"
          by (rule ilog_unique) (use vpos v2 in \<open>simp_all add: power_int_add\<close>)
        have pm: "p + 1 = max (e + 1 - 52) (- 1074)" using pe \<open>- 1074 \<le> e - 52\<close> by simp
        have no: "\<not> (971 < p + 1 \<or> (p + 1 = 971 \<and> (2::int) ^ 53 \<le> 2 ^ 52))"
          using nov True by simp
        have z: "(0::int) < 2 ^ 52" by simp
        show ?thesis
          by (rule round_pos_exact [OF v3 z i pm no])
      next
        case False
        then have mlt: "m < 2 ^ 53" using mhi by simp
        have "(2::rat) powi e = of_int (2 ^ 52) * 2 powi p"
          using E by simp
        also have "\<dots> \<le> v" unfolding v using mlo P by (simp add: mult_right_mono del: power_int_numeral)
        finally have a: "2 powi e \<le> v" .
        have "v < of_int (2 ^ 53) * 2 powi p"
          unfolding v using mlt P by (simp add: mult_strict_right_mono del: power_int_numeral)
        also have "\<dots> = 2 powi (e + 1)"
          using E1 by simp
        finally have b: "v < 2 powi (e + 1)" .
        have "ilog 2 v = e"
          by (rule ilog_unique) (use vpos a b in simp_all)
        then show ?thesis
          using round_pos_exact [OF v mpos _ p_def nov] by blast
      qed
    next
      case False
      then have pe: "p = - 1074" and elt: "e + 1 - p \<le> 52" by (simp_all add: p_def)
      have "q / 2 powi p < 2 powi (e + 1) / 2 powi p"
        using eb(2) P by (simp add: divide_strict_right_mono)
      also have "\<dots> = 2 powi (e + 1 - p)" by (simp add: power_int_diff)
      also have "\<dots> \<le> 2 powi 52" using elt by (intro power_int_increasing) simp_all
      finally have "q / 2 powi p \<le> of_int (2 ^ 52)" by simp
      then have mhi: "m \<le> 2 ^ 52" unfolding m_def by (rule round_half_even_le)
      have "v \<le> of_int (2 ^ 52) * 2 powi p"
        unfolding v using mhi P by (simp add: mult_right_mono del: power_int_numeral)
      also have "\<dots> = 2 powi (52 + p)"
        by (simp add: power_int_add)
      finally have vle: "v \<le> 2 powi (52 + p)" .
      define e' where "e' = ilog 2 v"
      have "2 powi e' \<le> v" using ilog_bounds [OF vpos, of 2] by (simp add: e'_def)
      then have le: "(2::rat) powi e' \<le> 2 powi (52 + p)" using vle by simp
      have "\<not> 52 + p < e'"
      proof
        assume "52 + p < e'"
        then have "(2::rat) powi (52 + p) < 2 powi e'"
          by (rule power_int_strict_increasing) simp
        then show False using le by simp
      qed
      then have pm: "p = max (e' - 52) (- 1074)" using pe by simp
      have ee: "ilog 2 v = e'" by (simp add: e'_def)
      show ?thesis
        by (rule round_pos_exact [OF v mpos ee pm nov])
    qed
    then show ?thesis using vpos by simp
  qed
qed

lemma js_neg_js_neg: "js_neg (js_neg x) = x"
  by (cases x) simp_all

lemma js_neg_eq_Num:
  assumes "js_neg x = Num v"
  shows "(x = NegZero \<and> v = 0) \<or> (x = Num (- v) \<and> v \<noteq> 0)"
  using assms by (cases x) (auto split: if_splits)

lemma round_double_fixed:
  assumes "round_double r = Num v"
  shows "round_double v = Num v"
proof -
  consider "r = 0" | "r < 0" | "0 < r" by linarith
  then show ?thesis
  proof cases
    case 1
    then show ?thesis using assms by (simp add: round_double_def)
  next
    case 2
    then have "js_neg (round_pos (- r)) = Num v" using assms by (simp add: round_double_def)
    then have w: "round_pos (- r) = Num (- v)" and v0: "v \<noteq> 0"
      using js_neg_eq_Num [of "round_pos (- r)" v] 
      by (auto simp add: round_pos_unfold split: if_splits)
    have "0 < - r" using 2 by simp
    then have "- v = 0 \<or> (0 < - v \<and> round_pos (- v) = Num (- v))"
      using w by (rule round_pos_fixed)
    then have "v < 0" "round_pos (- v) = Num (- v)" using v0 by simp_all
    then show ?thesis using v0 by (simp add: round_double_def)
  next
    case 3
    then have "round_pos r = Num v" using assms by (simp add: round_double_def)
    then have "v = 0 \<or> (0 < v \<and> round_pos v = Num v)"
      using 3 round_pos_fixed by blast
    then show ?thesis by (auto simp add: round_double_def)
  qed
qed

lemma is_double_round_double: "is_double (round_double r)"
  using round_double_fixed [of r] by (cases "round_double r") (simp_all add: is_double_def)

lemma round_double_minus:
  assumes "q \<noteq> 0"
  shows "round_double (- q) = js_neg (round_double q)"
  using assms by (simp add: round_double_def js_neg_js_neg)

lemma is_double_js_neg:
  assumes "is_double x"
  shows "is_double (js_neg x)"
proof (cases x)
  case (Num q)
  show ?thesis
  proof (cases "q = 0")
    case True
    then show ?thesis using Num by (simp add: is_double_def)
  next
    case False
    then have "round_double (- q) = js_neg (Num q)"
      using assms Num by (simp add: round_double_minus is_double_def del: js_neg.simps)
    then show ?thesis using Num False by (simp add: is_double_def)
  qed
qed (simp_all add: is_double_def round_double_def)

lemma is_double_parseFloat: "is_double (parseFloat str)"
proof -
  have a: "is_double (case parse_unsigned u of None \<Rightarrow> NaN | Some q \<Rightarrow> round_double q)" for u
    by (cases "parse_unsigned u") (simp_all add: is_double_def is_double_round_double [unfolded is_double_def])
  have b: "is_double (if take 8 u = ''Infinity'' then Infinity
                      else case parse_unsigned u of None \<Rightarrow> NaN | Some q \<Rightarrow> round_double q)" for u
    using a [of u] by (simp add: is_double_def)
  show ?thesis
    unfolding parseFloat_def Let_def using b is_double_js_neg by presburger
qed

section \<open>Decimal digits\<close>

lemma of_char_digit_char: "(of_char (digit_char d) :: int) = 48 + d mod 10"
proof -
  have "0 \<le> d mod 10" "d mod 10 < 10" by simp_all
  then have "(48 + d mod 10) mod 256 = 48 + d mod 10" by simp
  then show ?thesis by (simp add: digit_char_def)
qed

lemma is_digit_digit_char: "is_digit (digit_char d)"
  by (simp add: is_digit_def of_char_digit_char)

lemma digit_val_digit_char: "digit_val (digit_char d) = d mod 10"
  by (simp add: digit_val_def of_char_digit_char)

lemma digits_of_all_digits: "\<forall>c \<in> set (digits_of n). is_digit c"
proof (induction n rule: digits_of.induct)
  case (1 n)
  show ?case
  proof (cases "n < 10")
    case True
    then show ?thesis by (simp add: digits_of.simps [of n] is_digit_digit_char)
  next
    case False
    then show ?thesis using 1 by (simp add: digits_of.simps [of n] is_digit_digit_char)
  qed
qed

lemma digits_of_not_Nil: "digits_of n \<noteq> []"
  by (simp add: digits_of.simps [of n])

lemma foldl_digits:
  "foldl (\<lambda>a c. 10 * a + digit_val c) a xs = a * 10 ^ length xs + digits_val xs"
proof (induction xs arbitrary: a)
  case Nil
  show ?case by (simp add: digits_val_def)
next
  case (Cons x xs)
  have "foldl (\<lambda>a c. 10 * a + digit_val c) a (x # xs)
          = (10 * a + digit_val x) * 10 ^ length xs + digits_val xs"
    using Cons [of "10 * a + digit_val x"] by simp
  moreover have "digits_val (x # xs) = digit_val x * 10 ^ length xs + digits_val xs"
    using Cons [of "digit_val x"] by (simp add: digits_val_def)
  ultimately show ?case by (simp add: algebra_simps)
qed

lemma digits_val_append:
  "digits_val (xs @ ys) = digits_val xs * 10 ^ length ys + digits_val ys"
proof -
  have "digits_val (xs @ ys) = foldl (\<lambda>a c. 10 * a + digit_val c) (digits_val xs) ys"
    by (simp add: digits_val_def)
  then show ?thesis by (simp add: foldl_digits)
qed

lemma digits_val_single: "digits_val [c] = digit_val c"
  by (simp add: digits_val_def)

lemma digits_val_digits_of:
  assumes "0 \<le> n"
  shows "digits_val (digits_of n) = n"
  using assms
proof (induction n rule: digits_of.induct)
  case (1 n)
  show ?case
  proof (cases "n < 10")
    case True
    then show ?thesis
      using 1 by (simp add: digits_of.simps [of n] digits_val_single digit_val_digit_char)
  next
    case False
    then have "digits_val (digits_of (n div 10)) = n div 10" using 1 by simp
    then show ?thesis
      using False
      by (simp add: digits_of.simps [of n] digits_val_append digits_val_single
            digit_val_digit_char)
  qed
qed

lemma length_digits_of:
  assumes "10 ^ k \<le> n" "n < 10 ^ Suc k"
  shows "length (digits_of n) = Suc k"
  using assms
proof (induction k arbitrary: n)
  case 0
  then show ?case by (simp add: digits_of.simps [of n])
next
  case (Suc k)
  have "(10::int) \<le> 10 ^ Suc k" by simp
  then have ge: "\<not> n < 10" using Suc.prems by linarith
  have dm: "n = 10 * (n div 10) + n mod 10" by simp
  have m0: "0 \<le> n mod 10" "n mod 10 < 10" by simp_all
  have a: "10 ^ k \<le> n div 10"
    using Suc.prems(1) dm m0 by simp
  have b: "n div 10 < 10 ^ Suc k"
    using Suc.prems(2) dm m0 by simp
  have "length (digits_of (n div 10)) = Suc k" using Suc.IH [OF a b] .
  then show ?case using ge by (simp add: digits_of.simps [of n])
qed

lemma digits_val_zeros: "digits_val (replicate k CHR ''0'') = 0"
  by (induction k) (simp_all add: digits_val_def digit_val_def)

section \<open>The shortest decimal representation\<close>

text \<open>
  Whatever digits \<open>shortest\<close> returns, the decimal they denote rounds to the number
  printed.
\<close>

lemma candidate_sound:
  assumes q: "0 < q" and n0: "10 powi (n0 - 1) \<le> q" "q < 10 powi n0" and k: "1 \<le> k"
    and c: "candidate q n0 k = Some (s, n)"
  shows "0 < s \<and> round_double (of_int s * 10 powi (n - int (length (digits_of s)))) = Num q"
proof -
  define sc :: rat where "sc = 10 powi (n0 - k)"
  define lo where "lo = \<lfloor>q / sc\<rfloor>"
  define K where "K = nat (k - 1)"
  have kK: "k = int (Suc K)" "nat k = Suc K" "nat (k - 1) = K" using k by (simp_all add: K_def)
  have sc: "0 < sc" by (simp add: sc_def)
  have pk: "(10::rat) powi k = 10 ^ Suc K"
    using k by (simp add: power_int_nonneg_exp kK(2))
  have pk1: "(10::rat) powi (k - 1) = 10 ^ K"
    using k by (simp add: power_int_nonneg_exp kK(3))
  have "(10::rat) powi (n0 - 1) = 10 powi (k - 1) * sc"
    unfolding sc_def by (simp flip: power_int_add)
  then have "10 powi (k - 1) * sc \<le> q" using n0 by simp
  then have "(10::rat) powi (k - 1) \<le> q / sc" using sc by (simp only: pos_le_divide_eq)
  moreover have "(10::rat) powi (k - 1) = of_int (10 ^ K)" using pk1 by simp
  ultimately have lo1: "10 ^ K \<le> lo" by (simp add: lo_def le_floor_iff)
  have "(10::rat) powi n0 = 10 powi k * sc"
    unfolding sc_def by (simp flip: power_int_add)
  then have "q < 10 powi k * sc" using n0 by simp
  then have "q / sc < 10 powi k" using sc by (simp only: pos_divide_less_eq)
  moreover have "(10::rat) powi k = of_int (10 ^ Suc K)" using pk by simp
  ultimately have lo2: "lo < 10 ^ Suc K" by (simp add: lo_def floor_less_iff)
  have lpos: "0 < lo"
  proof -
    have "(0::int) < 10 ^ K" by simp
    then show ?thesis using lo1 by linarith
  qed
  have len_lo: "int (length (digits_of lo)) = k"
    using length_digits_of [OF lo1 lo2] kK by simp
  have c': "(if round_double (of_int (lo + 1) * sc) = Num q
                \<and> (round_double (of_int lo * sc) \<noteq> Num q
                   \<or> of_int (lo + 1) * sc - q < q - of_int lo * sc
                   \<or> (of_int (lo + 1) * sc - q = q - of_int lo * sc \<and> even (lo + 1)))
             then Some (if lo + 1 = 10 ^ nat k then (10 ^ nat (k - 1), n0 + 1) else (lo + 1, n0))
             else if round_double (of_int lo * sc) = Num q then Some (lo, n0) else None)
            = Some (s, n)"
    using c by (simp only: candidate_def Let_def sc_def lo_def)
  show ?thesis
  proof (cases "round_double (of_int (lo + 1) * sc) = Num q
                \<and> (round_double (of_int lo * sc) \<noteq> Num q
                   \<or> of_int (lo + 1) * sc - q < q - of_int lo * sc
                   \<or> (of_int (lo + 1) * sc - q = q - of_int lo * sc \<and> even (lo + 1)))")
    case True
    then have okhi: "round_double (of_int (lo + 1) * sc) = Num q" by simp
    show ?thesis
    proof (cases "lo + 1 = 10 ^ Suc K")
      case top: True
      then have sn: "s = 10 ^ K" "n = n0 + 1" using c' True kK by simp_all
      have "length (digits_of (10 ^ K :: int)) = Suc K"
        by (rule length_digits_of) simp_all
      then have len: "int (length (digits_of s)) = k" using sn kK by simp
      have "of_int s * 10 powi (n - k) = (10::rat) powi (k - 1) * 10 powi (n0 + 1 - k)"
        using sn pk1 by simp
      also have "\<dots> = 10 powi k * sc"
        unfolding sc_def by (simp flip: power_int_add)
      also have "\<dots> = of_int (lo + 1) * sc" using top pk by simp
      finally show ?thesis using okhi len sn by simp
    next
      case False
      then have sn: "s = lo + 1" "n = n0" using c' True kK by simp_all
      have "lo + 1 < 10 ^ Suc K" using False lo2 by linarith
      moreover have "10 ^ K \<le> lo + 1" using lo1 by linarith
      ultimately have "length (digits_of (lo + 1)) = Suc K" by (rule length_digits_of [rotated])
      then have len: "int (length (digits_of s)) = k" using sn kK by simp
      show ?thesis using okhi len sn lpos by (simp add: sc_def)
    qed
  next
    case False
    then have "round_double (of_int lo * sc) = Num q \<and> s = lo \<and> n = n0"
      using c' by (auto split: if_splits)
    then show ?thesis using len_lo lpos by (simp add: sc_def)
  qed
qed

lemma exact_digits_sound:
  assumes q: "0 < q" and fx: "round_pos q = Num q" and ex: "exact_digits q = (s, n)"
  shows "0 < s \<and> of_int s * 10 powi (n - int (length (digits_of s))) = q"
proof -
  define p where "p = max (ilog 2 q - 52) (- 1074)"
  define m where "m = round_half_even (q / 2 powi p)"
  have "round_pos q = (if 971 < p \<or> (p = 971 \<and> 2 ^ 53 \<le> m) then Infinity
                       else Num (of_int m * 2 powi p))"
    unfolding m_def p_def by (rule round_pos_unfold)
  then have qm: "q = of_int m * 2 powi p" using fx by (auto split: if_splits)
  have "(0::rat) < 2 powi p" by simp
  then have "(0::rat) < of_int m" using q qm zero_less_mult_pos2 by blast
  then have m: "0 < m" by simp
  have sn: "s = (if 0 \<le> p then m * 2 ^ nat p else m * 5 ^ nat (- p))"
       "n = int (length (digits_of s)) + min p 0"
    using ex unfolding exact_digits_def Let_def p_def [symmetric] m_def [symmetric] by auto
  show ?thesis
  proof (cases "0 \<le> p")
    case True
    have pp: "(2::rat) powi p = 2 ^ nat p" using True by (rule power_int_nonneg_exp)
    have "of_int s * 10 powi (n - int (length (digits_of s))) = of_int m * 2 ^ nat p"
      using True sn by simp
    moreover have "0 < s" using True sn m by simp
    ultimately show ?thesis using qm pp by simp
  next
    case False
    define N where "N = nat (- p)"
    have pN: "p = - int N" using False by (simp add: N_def)
    have s5: "s = m * 5 ^ N" using sn False by (simp add: N_def)
    have "min p 0 = p" using False by simp
    then have nn: "n - int (length (digits_of s)) = - int N" using sn(2) pN by simp
    have "of_int s * 10 powi (n - int (length (digits_of s)))
            = of_int m * (5 ^ N * (10::rat) powi (- int N))"
      using nn by (simp add: s5)
    also have "5 ^ N * (10::rat) powi (- int N) = 2 powi (- int N)"
    proof -
      have "(10::rat) ^ N = 5 ^ N * 2 ^ N" by (simp flip: power_mult_distrib)
      then show ?thesis by (simp add: power_int_minus field_simps)
    qed
    finally have "of_int s * 10 powi (n - int (length (digits_of s))) = q"
      using qm pN by simp
    moreover have "0 < s" using s5 m by simp
    ultimately show ?thesis by simp
  qed
qed

lemma shortest_sound:
  assumes q: "0 < q" and fx: "round_pos q = Num q"
    and n0: "10 powi (n0 - 1) \<le> q" "q < 10 powi n0" and k: "1 \<le> k"
    and sh: "shortest q n0 k fuel = (s, n)"
  shows "0 < s \<and> round_double (of_int s * 10 powi (n - int (length (digits_of s)))) = Num q"
  using k sh
proof (induction fuel arbitrary: k)
  case 0
  then have "exact_digits q = (s, n)" by simp
  then have "0 < s \<and> of_int s * 10 powi (n - int (length (digits_of s))) = q"
    using q fx exact_digits_sound by blast
  then show ?case using q fx by (simp add: round_double_def)
next
  case (Suc fuel)
  show ?case
  proof (cases "candidate q n0 k")
    case None
    then have "shortest q n0 (k + 1) fuel = (s, n)" using Suc.prems by simp
    then show ?thesis using Suc.IH [of "k + 1"] Suc.prems by simp
  next
    case (Some sn)
    then have "candidate q n0 k = Some (s, n)" using Suc.prems by simp
    then show ?thesis using candidate_sound [OF q n0] Suc.prems by blast
  qed
qed

section \<open>Reading back what was printed\<close>

lemma takeWhile_digits_all:
  assumes "\<forall>c \<in> set xs. is_digit c"
  shows "takeWhile is_digit xs = xs" and "dropWhile is_digit xs = []"
  using assms by simp_all

lemma takeWhile_digits_stop:
  assumes "\<forall>c \<in> set xs. is_digit c" and "\<not> is_digit c"
  shows "takeWhile is_digit (xs @ c # ys) = xs" and "dropWhile is_digit (xs @ c # ys) = c # ys"
  using assms by simp_all

lemma not_digit_chars:
  "\<not> is_digit CHR ''.''" "\<not> is_digit CHR ''e''" "\<not> is_digit CHR ''-''" "\<not> is_digit CHR ''+''"
  "is_digit CHR ''0''"
  by (simp_all add: is_digit_def)

lemma digit_not_special:
  assumes "is_digit c"
  shows "\<not> is_white c" "c \<noteq> CHR ''-''" "c \<noteq> CHR ''+''" "c \<noteq> CHR ''I''" "c \<noteq> CHR ''.''"
    "c \<noteq> CHR ''e''" "c \<noteq> CHR ''E''"
  using assms by (auto simp add: is_digit_def is_white_def)

lemma parse_exponent_signed:
  assumes "\<forall>c \<in> set ds. is_digit c"
  shows "parse_exponent (CHR ''e'' # CHR ''-'' # ds) = - digits_val ds"
    and "parse_exponent (CHR ''e'' # CHR ''+'' # ds) = digits_val ds"
  by (simp_all add: parse_exponent_def takeWhile_digits_all [OF assms])

lemma parse_exponent_digits_of:
  "parse_exponent (''e'' @ (if e < 0 then ''-'' else ''+'') @ digits_of \<bar>e\<bar>) = e"
  using parse_exponent_signed [OF digits_of_all_digits, of "\<bar>e\<bar>"]
  by (cases "e < 0") (simp_all add: digits_val_digits_of)

lemma parse_exponent_Nil: "parse_exponent [] = 0"
  by (simp add: parse_exponent_def)

lemma parse_unsigned_integer:
  assumes "\<forall>c \<in> set u. is_digit c" "u \<noteq> []"
  shows "parse_unsigned u = Some (of_int (digits_val u))"
  using assms(2) unfolding parse_unsigned_def Let_def takeWhile_digits_all [OF assms(1)]
  by (simp add: parse_exponent_Nil)

lemma parse_unsigned_fraction:
  assumes "\<forall>c \<in> set ip. is_digit c" "\<forall>c \<in> set fp. is_digit c" "ip \<noteq> []"
  shows "parse_unsigned (ip @ ''.'' @ fp)
           = Some (of_int (digits_val (ip @ fp)) * 10 powi (- int (length fp)))"
proof -
  have a: "takeWhile is_digit (ip @ CHR ''.'' # fp) = ip"
          "dropWhile is_digit (ip @ CHR ''.'' # fp) = CHR ''.'' # fp"
    using takeWhile_digits_stop [OF assms(1) not_digit_chars(1)] by simp_all
  have "parse_unsigned (ip @ CHR ''.'' # fp)
          = Some (of_int (digits_val (ip @ fp)) * 10 powi (- int (length fp)))"
    unfolding parse_unsigned_def Let_def a using assms(3)
    by (simp add: parse_exponent_Nil takeWhile_digits_all [OF assms(2)])
  then show ?thesis by simp
qed

lemma parse_unsigned_exponent:
  assumes "\<forall>c \<in> set ip. is_digit c" "ip \<noteq> []"
  shows "parse_unsigned (ip @ ''e'' @ (if e < 0 then ''-'' else ''+'') @ digits_of \<bar>e\<bar>)
           = Some (of_int (digits_val ip) * 10 powi e)"
proof -
  let ?es = "(if e < 0 then ''-'' else ''+'') @ digits_of \<bar>e\<bar>"
  have a: "takeWhile is_digit (ip @ CHR ''e'' # ?es) = ip"
          "dropWhile is_digit (ip @ CHR ''e'' # ?es) = CHR ''e'' # ?es"
    using takeWhile_digits_stop [OF assms(1) not_digit_chars(2)] by blast+
  have b: "parse_exponent (CHR ''e'' # ?es) = e"
    using parse_exponent_digits_of [of e] by simp
  have "parse_unsigned (ip @ CHR ''e'' # ?es) = Some (of_int (digits_val ip) * 10 powi e)"
    unfolding parse_unsigned_def Let_def a using assms(2) b by simp
  then show ?thesis by simp
qed

lemma parse_unsigned_fraction_exponent:
  assumes "\<forall>c \<in> set ip. is_digit c" "\<forall>c \<in> set fp. is_digit c" "ip \<noteq> []"
  shows "parse_unsigned (ip @ ''.'' @ fp @ ''e'' @ (if e < 0 then ''-'' else ''+'') @ digits_of \<bar>e\<bar>)
           = Some (of_int (digits_val (ip @ fp)) * 10 powi (e - int (length fp)))"
proof -
  let ?es = "(if e < 0 then ''-'' else ''+'') @ digits_of \<bar>e\<bar>"
  have a: "takeWhile is_digit (ip @ CHR ''.'' # fp @ CHR ''e'' # ?es) = ip"
          "dropWhile is_digit (ip @ CHR ''.'' # fp @ CHR ''e'' # ?es) = CHR ''.'' # fp @ CHR ''e'' # ?es"
    using takeWhile_digits_stop [OF assms(1) not_digit_chars(1)] by blast+
  have c: "takeWhile is_digit (fp @ CHR ''e'' # ?es) = fp"
          "dropWhile is_digit (fp @ CHR ''e'' # ?es) = CHR ''e'' # ?es"
    using takeWhile_digits_stop [OF assms(2) not_digit_chars(2)] by blast+
  have b: "parse_exponent (CHR ''e'' # ?es) = e"
    using parse_exponent_digits_of [of e] by simp
  have "parse_unsigned (ip @ CHR ''.'' # fp @ CHR ''e'' # ?es)
          = Some (of_int (digits_val (ip @ fp)) * 10 powi (e - int (length fp)))"
    unfolding parse_unsigned_def Let_def a using assms(3) b c by simp
  then show ?thesis by simp
qed

lemma zeros_all_digits: "\<forall>c \<in> set (replicate j CHR ''0''). is_digit c"
  by (simp add: not_digit_chars)

lemma digits_val_trailing_zeros:
  "digits_val (ds @ replicate j CHR ''0'') = digits_val ds * 10 ^ j"
  by (simp add: digits_val_append digits_val_zeros)

lemma digits_val_leading_zeros:
  "digits_val (''0'' @ replicate j CHR ''0'' @ ds) = digits_val ds"
proof -
  have "digits_val (''0'' @ replicate j CHR ''0'') = 0"
    using digits_val_zeros [of "Suc j"] by simp
  then show ?thesis
    using digits_val_append [of "''0'' @ replicate j CHR ''0''" ds] by simp
qed

lemma parse_unsigned_format:
  assumes ds: "\<forall>c \<in> set ds. is_digit c" and ne: "ds \<noteq> []"
  shows "parse_unsigned (format_decimal ds n)
           = Some (of_int (digits_val ds) * 10 powi (n - int (length ds)))"
proof -
  define k where "k = int (length ds)"
  have kpos: "0 < k" using ne by (simp add: k_def)
  show ?thesis
  proof (cases "- 5 \<le> n \<and> n \<le> 21")
    case True
    consider "k \<le> n" | "n < k" "0 < n" | "n \<le> 0" using kpos by linarith
    then show ?thesis
    proof cases
      case 1
      define j where "j = nat (n - k)"
      have f: "format_decimal ds n = ds @ replicate j CHR ''0''"
        using True 1 by (simp add: format_decimal_def Let_def k_def j_def)
      have "\<forall>c \<in> set (ds @ replicate j CHR ''0''). is_digit c"
        using ds zeros_all_digits [of j] by auto
      then have "parse_unsigned (ds @ replicate j CHR ''0'')
                  = Some (of_int (digits_val (ds @ replicate j CHR ''0'')))"
        using ne by (intro parse_unsigned_integer) simp_all
      moreover have "(10::rat) powi (n - k) = 10 ^ j"
        using 1 by (simp add: power_int_nonneg_exp j_def)
      ultimately show ?thesis
        using f by (simp add: digits_val_trailing_zeros k_def)
    next
      case 2
      define j where "j = nat n"
      have j: "0 < j" "j < length ds" using 2 by (simp_all add: j_def k_def)
      have f: "format_decimal ds n = take j ds @ ''.'' @ drop j ds"
        using True 2 by (simp add: format_decimal_def Let_def k_def j_def)
      have a: "\<forall>c \<in> set (take j ds). is_digit c" using ds by (meson in_set_takeD)
      have b: "\<forall>c \<in> set (drop j ds). is_digit c" using ds by (meson in_set_dropD)
      have c: "take j ds \<noteq> []" using j ne by simp
      have "- int (length (drop j ds)) = n - k" using j 2 by (simp add: j_def k_def)
      then show ?thesis
        using parse_unsigned_fraction [OF a b c] f by (simp add: k_def)
    next
      case 3
      define j where "j = nat (- n)"
      have nk: "\<not> int (length ds) \<le> n" using 3 kpos unfolding k_def by linarith
      have f: "format_decimal ds n = ''0'' @ ''.'' @ (replicate j CHR ''0'' @ ds)"
        using True 3 nk by (simp add: format_decimal_def Let_def j_def)
      have a: "\<forall>c \<in> set ''0''. is_digit c" by (simp add: not_digit_chars)
      have b: "\<forall>c \<in> set (replicate j CHR ''0'' @ ds). is_digit c"
        using ds zeros_all_digits [of j] by auto
      have "- int (length (replicate j CHR ''0'' @ ds)) = n - k"
        using 3 by (simp add: j_def k_def)
      then show ?thesis
        using parse_unsigned_fraction [OF a b] f digits_val_leading_zeros [of j ds]
        by (simp add: k_def)
    qed
  next
    case False
    define e where "e = n - 1"
    let ?es = "(if e < 0 then ''-'' else ''+'') @ digits_of \<bar>e\<bar>"
    have fe: "format_decimal ds n
                = (if k = 1 then ds @ ''e'' @ ?es
                   else take 1 ds @ ''.'' @ drop 1 ds @ ''e'' @ ?es)"
    proof (cases "n < - 5")
      case True
      then show ?thesis by (simp add: format_decimal_def Let_def k_def e_def)
    next
      case nlt: False
      then have "21 < n" using False by simp
      then show ?thesis by (simp add: format_decimal_def Let_def k_def e_def)
    qed
    show ?thesis
    proof (cases "k = 1")
      case True
      have f: "format_decimal ds n = ds @ ''e'' @ ?es"
        using fe True by simp
      show ?thesis
        using parse_unsigned_exponent [OF ds ne, of e] f True by (simp add: k_def e_def)
    next
      case k1: False
      have f: "format_decimal ds n = take 1 ds @ ''.'' @ drop 1 ds @ ''e'' @ ?es"
        using fe k1 by simp
      have a: "\<forall>c \<in> set (take 1 ds). is_digit c" using ds by (meson in_set_takeD)
      have b: "\<forall>c \<in> set (drop 1 ds). is_digit c" using ds by (meson in_set_dropD)
      have c: "take 1 ds \<noteq> []" using ne by simp
      obtain d ds' where "ds = d # ds'" using ne by (cases ds) auto
      then have "int (length (drop 1 ds)) = k - 1" by (simp add: k_def)
      then have "e - int (length (drop 1 ds)) = n - k" by (simp add: e_def)
      then show ?thesis
        using parse_unsigned_fraction_exponent [OF a b c, of e] f by (simp add: k_def)
    qed
  qed
qed

lemma format_decimal_head:
  assumes ds: "\<forall>c \<in> set ds. is_digit c" and ne: "ds \<noteq> []"
  shows "\<exists>c r. format_decimal ds n = c # r \<and> is_digit c"
proof -
  obtain d ds' where d: "ds = d # ds'" using ne by (cases ds) auto
  have dd: "is_digit d" using ds d by simp
  show ?thesis
  proof (cases "0 < n")
    case True
    then obtain j where "nat n = Suc j" by (cases "nat n") auto
    then show ?thesis using dd d by (auto simp add: format_decimal_def Let_def)
  next
    case False
    then show ?thesis using dd d by (auto simp add: format_decimal_def Let_def not_digit_chars)
  qed
qed

lemma parseFloat_digit_head:
  assumes "is_digit c"
  shows "parseFloat (c # r)
           = (case parse_unsigned (c # r) of None \<Rightarrow> NaN | Some q \<Rightarrow> round_double q)"
  using digit_not_special [OF assms] by (simp add: parseFloat_def Let_def)

lemma parseFloat_minus_digit_head:
  assumes "is_digit c"
  shows "parseFloat (CHR ''-'' # c # r)
           = js_neg (case parse_unsigned (c # r) of None \<Rightarrow> NaN | Some q \<Rightarrow> round_double q)"
proof -
  have "\<not> is_white CHR ''-''" by (simp add: is_white_def)
  then show ?thesis
    using digit_not_special [OF assms] by (simp add: parseFloat_def Let_def)
qed

lemma pos_to_string_parse:
  assumes q: "0 < q" and fx: "round_pos q = Num q"
  shows "\<exists>c r. pos_to_string q = c # r \<and> is_digit c
           \<and> (case parse_unsigned (c # r) of None \<Rightarrow> NaN | Some v \<Rightarrow> round_double v) = Num q"
proof -
  obtain s n where sh: "shortest q (ilog 10 q + 1) 1 17 = (s, n)"
    by (cases "shortest q (ilog 10 q + 1) 1 17")
  have b: "10 powi (ilog 10 q + 1 - 1) \<le> q" "q < 10 powi (ilog 10 q + 1)"
    using ilog_bounds [OF q, of 10] by simp_all
  have one: "(1::int) \<le> 1" by simp
  have snd: "0 < s \<and> round_double (of_int s * 10 powi (n - int (length (digits_of s)))) = Num q"
    by (rule shortest_sound [OF q fx b one sh])
  have p: "pos_to_string q = format_decimal (digits_of s) n"
    by (simp add: pos_to_string_def sh)
  have "digits_val (digits_of s) = s" using snd by (simp add: digits_val_digits_of)
  then have pu: "parse_unsigned (format_decimal (digits_of s) n)
                  = Some (of_int s * 10 powi (n - int (length (digits_of s))))"
    using parse_unsigned_format [OF digits_of_all_digits digits_of_not_Nil, of s n] by simp
  obtain c r where cr: "format_decimal (digits_of s) n = c # r" "is_digit c"
    using format_decimal_head [OF digits_of_all_digits digits_of_not_Nil, of s n] by blast
  show ?thesis using p pu cr snd by simp
qed

lemma parseFloat_Infinity: "parseFloat ''Infinity'' = Infinity"
  by code_simp

lemma parseFloat_NegInfinity: "parseFloat ''-Infinity'' = NegInfinity"
  by code_simp

lemma parseFloat_zero: "parseFloat ''0'' = Num 0"
  by code_simp

lemma parseFloat_js_String:
  assumes d: "is_double x" and nn: "x \<noteq> NaN"
  shows "parseFloat (js_String x) = (if x = NegZero then Num 0 else x)"
proof (cases x)
  case (Num q)
  then have rq: "round_double q = Num q" using d by (simp add: is_double_def)
  consider "q = 0" | "0 < q" | "q < 0" by linarith
  then show ?thesis
  proof cases
    case 1
    then show ?thesis using Num by (simp add: parseFloat_zero)
  next
    case 2
    then have "round_pos q = Num q" using rq by (simp add: round_double_def)
    then obtain c r where "pos_to_string q = c # r" "is_digit c"
      "(case parse_unsigned (c # r) of None \<Rightarrow> NaN | Some v \<Rightarrow> round_double v) = Num q"
      using pos_to_string_parse [OF 2] by blast
    then show ?thesis using Num 2 by (simp add: parseFloat_digit_head)
  next
    case 3
    then have "js_neg (round_pos (- q)) = Num q" using rq by (simp add: round_double_def)
    then have fx: "round_pos (- q) = Num (- q)"
      using js_neg_eq_Num [of "round_pos (- q)" q] 3 by auto
    have "0 < - q" using 3 by simp
    then obtain c r where "pos_to_string (- q) = c # r" "is_digit c"
      "(case parse_unsigned (c # r) of None \<Rightarrow> NaN | Some v \<Rightarrow> round_double v) = Num (- q)"
      using pos_to_string_parse [OF _ fx] by blast
    then show ?thesis using Num 3 by (simp add: parseFloat_minus_digit_head)
  qed
next
  case NaN
  then show ?thesis using nn by simp
qed (simp_all add: parseFloat_zero parseFloat_Infinity parseFloat_NegInfinity)

lemma is_double_Num_zero: "is_double (Num 0)"
  by (simp add: is_double_def round_double_def)

lemma js_neg_not_NaN: "x \<noteq> NaN \<Longrightarrow> js_neg x \<noteq> NaN"
  by (cases x) simp_all

lemma toggle_twice_number:
  assumes d: "is_double x" and nn: "x \<noteq> NaN"
  shows "num_eq (parseFloat (js_String (js_neg (parseFloat (js_String (js_neg x)))))) x"
proof -
  define y where "y = js_neg x"
  have dy: "is_double y" "y \<noteq> NaN" using d nn by (simp_all add: y_def is_double_js_neg js_neg_not_NaN)
  define y' where "y' = parseFloat (js_String y)"
  have y': "y' = (if y = NegZero then Num 0 else y)"
    unfolding y'_def by (rule parseFloat_js_String [OF dy])
  have dy': "is_double y'" "y' \<noteq> NaN" using y' dy by (simp_all add: is_double_Num_zero)
  define z where "z = js_neg y'"
  have dz: "is_double z" "z \<noteq> NaN" using dy' by (simp_all add: z_def is_double_js_neg js_neg_not_NaN)
  have fin: "parseFloat (js_String z) = (if z = NegZero then Num 0 else z)"
    by (rule parseFloat_js_String [OF dz])
  have "num_eq (if z = NegZero then Num 0 else z) x"
    using nn unfolding z_def y' y_def by (cases x) (auto simp add: num_eq_def)
  then show ?thesis using fin by (simp add: z_def y'_def y_def)
qed

section \<open>Chained operations\<close>

lemma operator_performOperation:
  "operator (performOperation next_op s) = Some next_op"
  by (simp add: performOperation_def Let_def split: option.split)

lemma run_Nil: "run [] s = s"
  by (simp add: run_def)

lemma run_Cons: "run (c # cs) s = run cs (exec c s)"
  by (simp add: run_def)

lemma run_chain_seven:
  "display (run [InputDigit D3, PerformOperation ''+'', InputDigit D4,
                 PerformOperation times_key] initial) = ''7''"
  by code_simp

lemma run_chain_fourteen:
  "display (run [InputDigit D3, PerformOperation ''+'', InputDigit D4,
                 PerformOperation times_key, InputDigit D2, PerformOperation ''='']
             initial) = ''14''"
  by code_simp

lemma run_chain_app:
  "displayValue
     (performOperation_app ''=''
       (inputDigit_app (Num 2)
         (performOperation_app times_key
           (inputDigit_app (Num 4)
             (performOperation_app ''+'' (inputDigit_app (Num 3) initial_app)))))) = ''14''"
  by code_simp

lemma performOperation_resolves:
  "storedValue (performOperation next_op s) =
     (case storedValue s of
        None \<Rightarrow> Some (parseFloat (display s))
      | Some sv \<Rightarrow>
          (case operator s of
             None \<Rightarrow> Some sv
           | Some op \<Rightarrow>
               if op = [] then Some sv
               else Some (switch_operator op (or_zero sv) (parseFloat (display s)))))
   \<and> display (performOperation next_op s) =
     (case storedValue s of
        None \<Rightarrow> display s
      | Some sv \<Rightarrow>
          (case operator s of
             None \<Rightarrow> display s
           | Some op \<Rightarrow>
               if op = [] then display s
               else js_String (switch_operator op (or_zero sv) (parseFloat (display s)))))
   \<and> waitingForOperand (performOperation next_op s) = True"
  by (simp add: performOperation_def Let_def split: option.split)

lemma performOperation_app_resolves:
  "storedValue_app (performOperation_app next_op c) =
     (case storedValue_app c of
        None \<Rightarrow> Some (parseFloat (displayValue c))
      | Some sv \<Rightarrow>
          (case operator_app c of
             None \<Rightarrow> Some sv
           | Some op \<Rightarrow>
               if op = [] then Some sv
               else Some (switch_operator_app op (or_zero sv) (parseFloat (displayValue c)))))
   \<and> displayValue (performOperation_app next_op c) =
     (case storedValue_app c of
        None \<Rightarrow> displayValue c
      | Some sv \<Rightarrow>
          (case operator_app c of
             None \<Rightarrow> displayValue c
           | Some op \<Rightarrow>
               if op = [] then displayValue c
               else js_String (switch_operator_app op (or_zero sv) (parseFloat (displayValue c)))))"
  by (simp add: performOperation_app_def Let_def split: option.split)

lemma switch_operator_keys:
  "switch_operator ''+'' a b = js_add a b \<and> switch_operator ''-'' a b = js_sub a b
   \<and> switch_operator times_key a b = js_mul a b \<and> switch_operator divide_key a b = js_div a b"
  by (simp add: switch_operator_def times_key_def divide_key_def)

lemma chain_of_three:
  "display
     (performOperation next_op
       ((performOperation (c2 # r2)
          ((performOperation (c1 # r1) (s\<lparr>storedValue := None\<rparr>))\<lparr>display := d2\<rparr>))
        \<lparr>display := d3\<rparr>))
   = js_String
       (switch_operator (c2 # r2)
          (or_zero (switch_operator (c1 # r1) (or_zero (parseFloat (display s))) (parseFloat d2)))
          (parseFloat d3))"
  by (simp add: performOperation_def Let_def)

lemma run_chain_minus_divide:
  "display (run [InputDigit D8, PerformOperation ''-'', InputDigit D4,
                 PerformOperation divide_key, InputDigit D2, PerformOperation ''='']
             initial) = ''2''"
  by code_simp

text \<open>
  C1. Chained operations are evaluated strictly left to right, with no operator
  precedence. For every state and whatever key is pressed next (an operator or
  \<^verbatim>\<open>'='\<close>), \<^verbatim>\<open>performOperation\<close> resolves the pending operator at once: with a stored
  value and a non-empty pending operator, the stored value and the display become the
  result of the \<^verbatim>\<open>switch\<close> on the pending operator, applied to \<^verbatim>\<open>storedValue || 0\<close> and
  the number read from the display (the \<^verbatim>\<open>switch\<close> adds, subtracts, multiplies and
  divides on the four operator keys); the key pressed only becomes the next pending
  operator. So a chain of three operands \<open>d1 op1 d2 op2 d3\<close> started with no stored value
  shows \<open>(d1 op1 d2) op2 d3\<close>, whatever the operators are. From the initial state
  \<open>3 + 4 \<times> 2 =\<close> shows \<open>7\<close> when \<open>\<times>\<close> is pressed and \<open>14\<close> at the end, and
  \<open>8 - 4 \<div> 2 =\<close> shows \<open>2\<close>. The calculator of \<^verbatim>\<open>src/App.tsx\<close> resolves the pending
  operator in the same way and also shows \<open>14\<close>.
\<close>

theorem chained_left_to_right:
  "display (run [InputDigit D3, PerformOperation ''+'', InputDigit D4,
                 PerformOperation times_key] initial) = ''7''
   \<and> display (run [InputDigit D3, PerformOperation ''+'', InputDigit D4,
                     PerformOperation times_key, InputDigit D2, PerformOperation ''='']
                 initial) = ''14''
   \<and> displayValue
         (performOperation_app ''=''
           (inputDigit_app (Num 2)
             (performOperation_app times_key
               (inputDigit_app (Num 4)
                 (performOperation_app ''+'' (inputDigit_app (Num 3) initial_app)))))) = ''14''
   \<and> display (run [InputDigit D8, PerformOperation ''-'', InputDigit D4,
                     PerformOperation divide_key, InputDigit D2, PerformOperation ''='']
                 initial) = ''2''
   \<and> storedValue (performOperation next_op s) =
       (case storedValue s of
          None \<Rightarrow> Some (parseFloat (display s))
        | Some sv \<Rightarrow>
            (case operator s of
               None \<Rightarrow> Some sv
             | Some op \<Rightarrow>
                 if op = [] then Some sv
                 else Some (switch_operator op (or_zero sv) (parseFloat (display s)))))
   \<and> display (performOperation next_op s) =
       (case storedValue s of
          None \<Rightarrow> display s
        | Some sv \<Rightarrow>
            (case operator s of
               None \<Rightarrow> display s
             | Some op \<Rightarrow>
                 if op = [] then display s
                 else js_String (switch_operator op (or_zero sv) (parseFloat (display s)))))
   \<and> operator (performOperation next_op s) = Some next_op
   \<and> waitingForOperand (performOperation next_op s) = True
   \<and> switch_operator ''+'' x y = js_add x y \<and> switch_operator ''-'' x y = js_sub x y
   \<and> switch_operator times_key x y = js_mul x y
   \<and> switch_operator divide_key x y = js_div x y
   \<and> display
         (performOperation next_op
           ((performOperation (c2 # r2)
              ((performOperation (c1 # r1) (s\<lparr>storedValue := None\<rparr>))\<lparr>display := d2\<rparr>))
            \<lparr>display := d3\<rparr>))
       = js_String
           (switch_operator (c2 # r2)
              (or_zero (switch_operator (c1 # r1) (or_zero (parseFloat (display s)))
                          (parseFloat d2)))
              (parseFloat d3))
   \<and> storedValue_app (performOperation_app next_op c) =
       (case storedValue_app c of
          None \<Rightarrow> Some (parseFloat (displayValue c))
        | Some sv \<Rightarrow>
            (case operator_app c of
               None \<Rightarrow> Some sv
             | Some op \<Rightarrow>
                 if op = [] then Some sv
                 else Some (switch_operator_app op (or_zero sv) (parseFloat (displayValue c)))))
   \<and> displayValue (performOperation_app next_op c) =
       (case storedValue_app c of
          None \<Rightarrow> displayValue c
        | Some sv \<Rightarrow>
            (case operator_app c of
               None \<Rightarrow> displayValue c
             | Some op \<Rightarrow>
                 if op = [] then displayValue c
                 else js_String
                        (switch_operator_app op (or_zero sv) (parseFloat (displayValue c)))))"
proof -
  note a = run_chain_seven run_chain_fourteen run_chain_app run_chain_minus_divide
  note b = performOperation_resolves [THEN conjunct1]
    performOperation_resolves [THEN conjunct2, THEN conjunct1]
    performOperation_resolves [THEN conjunct2, THEN conjunct2]
    operator_performOperation
  note c = switch_operator_keys [THEN conjunct1]
    switch_operator_keys [THEN conjunct2, THEN conjunct1]
    switch_operator_keys [THEN conjunct2, THEN conjunct2, THEN conjunct1]
    switch_operator_keys [THEN conjunct2, THEN conjunct2, THEN conjunct2]
    chain_of_three
  note d = performOperation_app_resolves [THEN conjunct1]
    performOperation_app_resolves [THEN conjunct2]
  show ?thesis
    by (intro conjI) (rule a b c d)+
qed

section \<open>The pending operator\<close>

lemma stored_after_equals:
  "storedValue (performOperation next_op (s\<lparr>storedValue := Some a, operator := Some ''=''\<rparr>))
     = Some (parseFloat (display s))"
  by (simp add: performOperation_def Let_def switch_operator_def times_key_def divide_key_def)

lemma history_after_equals:
  "history (performOperation next_op (s\<lparr>storedValue := Some a, operator := Some ''=''\<rparr>))
     = history s @ [history_line (or_zero a) ''='' (parseFloat (display s)) (parseFloat (display s))]"
  by (simp add: performOperation_def Let_def switch_operator_def times_key_def divide_key_def)

lemma handleEquals_operator:
  "operator_app (handleEquals c) =
     (case operator_app c of
        None \<Rightarrow> None
      | Some op \<Rightarrow> if op \<noteq> [] \<and> \<not> waitingForOperand_app c then None else Some op)"
  by (simp add: handleEquals_def split: option.split)

text \<open>
  C2, as stated, fails: \<^verbatim>\<open>performOperation\<close> ends with \<^verbatim>\<open>setOperator(nextOperator)\<close> for
  every argument, so after \<^verbatim>\<open>performOperation('=')\<close> the pending operator is the string
  \<^verbatim>\<open>'='\<close>, not \<^verbatim>\<open>null\<close>.
\<close>

theorem equals_leaves_operator_set:
  "operator (performOperation ''='' initial) \<noteq> None"
  by (simp add: operator_performOperation)

text \<open>
  C2, amended. For every state and every argument (the four operators and \<^verbatim>\<open>'='\<close> alike)
  the pending operator after \<^verbatim>\<open>performOperation\<close> is that argument. An operator pressed
  when \<^verbatim>\<open>'='\<close> is pending and a value is stored resolves the pending \<^verbatim>\<open>'='\<close> through the
  \<^verbatim>\<open>default\<close> branch of the \<^verbatim>\<open>switch\<close>: the stored value becomes the number read from
  the display, and a history line is added. In \<^verbatim>\<open>src/App.tsx\<close>, \<^verbatim>\<open>handleEquals\<close> leaves
  the operator \<^verbatim>\<open>null\<close> when a non-empty operator is pending and no new operand is
  awaited, and leaves the operator as it was otherwise.
\<close>

theorem pending_operator_is_argument:
  "operator (performOperation next_op s) = Some next_op
   \<and> storedValue (performOperation next_op (s\<lparr>storedValue := Some a, operator := Some ''=''\<rparr>))
       = Some (parseFloat (display s))
   \<and> history (performOperation next_op (s\<lparr>storedValue := Some a, operator := Some ''=''\<rparr>))
       = history s @ [history_line (or_zero a) ''='' (parseFloat (display s)) (parseFloat (display s))]
   \<and> operator_app (handleEquals c) =
       (case operator_app c of
          None \<Rightarrow> None
        | Some op \<Rightarrow> if op \<noteq> [] \<and> \<not> waitingForOperand_app c then None else Some op)"
  using operator_performOperation stored_after_equals history_after_equals handleEquals_operator
  by blast

section \<open>The memory register\<close>

lemma run_memory_eighty:
  "display (run [MemoryClear, InputDigit D7, MemoryAdd, InputDigit D3, MemoryAdd, MemoryRecall]
             initial) = ''80''"
  by code_simp

lemma run_memory_display_73:
  "display (run [MemoryClear, InputDigit D7, MemoryAdd, InputDigit D3] initial) = ''73''"
  by code_simp

lemma run_memory_ten:
  "display (run [MemoryClear, InputDigit D7, MemoryAdd, ClearDisplay, InputDigit D3, MemoryAdd,
                 MemoryRecall] initial) = ''10''"
  by code_simp

text \<open>
  C3, as stated, fails: after \<^verbatim>\<open>memoryClear(); inputDigit(7); memoryAdd(); inputDigit(3);
  memoryAdd(); memoryRecall()\<close> the display is not \<open>10\<close>.
\<close>

theorem memory_round_trip_not_ten:
  "display (run [MemoryClear, InputDigit D7, MemoryAdd, InputDigit D3, MemoryAdd, MemoryRecall]
             initial) \<noteq> ''10''"
  using run_memory_eighty by simp

text \<open>
  C3, amended. \<^verbatim>\<open>handleMemoryAdd\<close> does not start a new operand, so the digit \<open>3\<close> is
  appended to the \<open>7\<close> on the display: the display reads \<open>73\<close>, the second
  \<^verbatim>\<open>memoryAdd\<close> adds \<open>73\<close> to the \<open>7\<close> in memory, and \<^verbatim>\<open>memoryRecall\<close> shows \<open>80\<close>.
  With the display cleared before the second digit the same keys show \<open>10\<close>.
\<close>

theorem memory_round_trip:
  "display (run [MemoryClear, InputDigit D7, MemoryAdd, InputDigit D3] initial) = ''73''
   \<and> display (run [MemoryClear, InputDigit D7, MemoryAdd, InputDigit D3, MemoryAdd, MemoryRecall]
                 initial) = ''80''
   \<and> display (run [MemoryClear, InputDigit D7, MemoryAdd, ClearDisplay, InputDigit D3, MemoryAdd,
                     MemoryRecall] initial) = ''10''"
  using run_memory_display_73 run_memory_eighty run_memory_ten by simp

section \<open>Division by zero\<close>

lemma run_divide_by_zero:
  "display (run [InputDigit D5, PerformOperation divide_key, InputDigit D0, PerformOperation ''='']
             initial) = ''Infinity''"
  by code_simp

lemma divide_key_distinct:
  "divide_key \<noteq> []" "divide_key \<noteq> ''+''" "divide_key \<noteq> ''-''" "divide_key \<noteq> times_key"
  by (simp_all add: divide_key_def times_key_def)

lemma divide_by_zero_general:
  assumes "storedValue s = Some a" "operator s = Some divide_key"
    and "is_zero (parseFloat (display s))"
  shows "display (performOperation next_op s)
           = (if a = NaN \<or> is_zero a then ''NaN''
              else if is_neg a = is_neg (parseFloat (display s)) then ''Infinity''
              else ''-Infinity'')"
proof -
  define y where "y = parseFloat (display s)"
  have y: "is_zero y" "y \<noteq> NaN" "\<not> is_inf y" using assms(3) by (cases y; simp add: y_def)+
  have "display (performOperation next_op s) = js_String (js_div (or_zero a) y)"
    using assms(1,2) divide_key_distinct
    by (simp add: performOperation_def Let_def switch_operator_def y_def)
  moreover have "js_String (js_div (or_zero a) y)
                  = (if a = NaN \<or> is_zero a then ''NaN''
                     else if is_neg a = is_neg y then ''Infinity'' else ''-Infinity'')"
    using y by (cases a) (auto simp add: or_zero_def js_div_def signed_inf_def)
  ultimately show ?thesis by (simp add: y_def)
qed

lemma run_before_equals:
  "storedValue (run [InputDigit D5, PerformOperation divide_key, InputDigit D0] initial) = Some (Num 5)
   \<and> operator (run [InputDigit D5, PerformOperation divide_key, InputDigit D0] initial) = Some divide_key
   \<and> is_zero (parseFloat (display (run [InputDigit D5, PerformOperation divide_key, InputDigit D0] initial)))"
  by code_simp

text \<open>
  C4. Pressing \<open>5 \<div> 0 =\<close> from the initial state shows \<open>Infinity\<close>. In general, when a
  pending \<open>\<div>\<close> is resolved against a display that reads as zero, the display shows
  \<open>NaN\<close> if the stored value is a zero or NaN (which \<^verbatim>\<open>storedValue || 0\<close> turns into
  \<open>0\<close>), \<open>Infinity\<close> if the stored value and the zero have the same sign, and
  \<open>-Infinity\<close> otherwise. The result is a string in every case: the model has no failing
  branch.
\<close>

theorem divide_by_zero_sentinel:
  assumes "storedValue s = Some a" "operator s = Some divide_key"
    and "is_zero (parseFloat (display s))"
  shows "display (run [InputDigit D5, PerformOperation divide_key, InputDigit D0,
                       PerformOperation ''=''] initial) = ''Infinity''
         \<and> display (performOperation next_op s)
             = (if a = NaN \<or> is_zero a then ''NaN''
                else if is_neg a = is_neg (parseFloat (display s)) then ''Infinity''
                else ''-Infinity'')"
  using run_divide_by_zero divide_by_zero_general [OF assms] by simp

theorem divide_by_zero_sentinel_witness:
  "storedValue (run [InputDigit D5, PerformOperation divide_key, InputDigit D0] initial) = Some (Num 5)
   \<and> operator (run [InputDigit D5, PerformOperation divide_key, InputDigit D0] initial)
       = Some divide_key
   \<and> is_zero (parseFloat (display
         (run [InputDigit D5, PerformOperation divide_key, InputDigit D0] initial)))
   \<and> display (performOperation ''=''
         (run [InputDigit D5, PerformOperation divide_key, InputDigit D0] initial)) = ''Infinity''"
proof -
  let ?s = "run [InputDigit D5, PerformOperation divide_key, InputDigit D0] initial"
  have h: "storedValue ?s = Some (Num 5)" "operator ?s = Some divide_key"
    "is_zero (parseFloat (display ?s))"
    using run_before_equals by simp_all
  have "is_neg (Num 5) = is_neg (parseFloat (display ?s))"
    by code_simp
  then show ?thesis
    using divide_by_zero_sentinel [OF h, of "''=''"] h by simp
qed

section \<open>Clearing\<close>

lemma memory_survives_clearAll:
  "memory (clearAll (handleMemoryAdd (initial\<lparr>display := ''7''\<rparr>))) = Num 7"
  by code_simp

text \<open>
  C5. For every state, \<^verbatim>\<open>clearAll\<close> sets the display to \<open>0\<close>, the stored value and the
  operator to \<^verbatim>\<open>null\<close> and the waiting flag to false, and leaves memory and history as
  they were; after \<^verbatim>\<open>memoryAdd\<close> on the display \<open>7\<close>, \<^verbatim>\<open>clearAll\<close> leaves memory at \<open>7\<close>.
\<close>

theorem clearAll_frame:
  "display (clearAll s) = ''0'' \<and> storedValue (clearAll s) = None
   \<and> operator (clearAll s) = None \<and> waitingForOperand (clearAll s) = False
   \<and> memory (clearAll s) = memory s \<and> history (clearAll s) = history s
   \<and> memory (clearAll (handleMemoryAdd (initial\<lparr>display := ''7''\<rparr>))) = Num 7"
  using memory_survives_clearAll by (simp add: clearAll_def)

text \<open>
  C10. For every state, \<^verbatim>\<open>handleMemoryAdd\<close>, \<^verbatim>\<open>handleMemorySubtract\<close> and
  \<^verbatim>\<open>handleMemoryClear\<close> change the memory register only: display, stored value, pending
  operator, waiting flag and history are as before. So a digit pressed right after
  \<^verbatim>\<open>handleMemoryAdd\<close> gives the display it would have given before it (appended to the
  current display unless the flag was set already or the display is \<open>0\<close>), while
  \<^verbatim>\<open>handleMemoryRecall\<close> sets the flag.
\<close>

theorem memory_commands_frame:
  "display (handleMemoryAdd s) = display s \<and> storedValue (handleMemoryAdd s) = storedValue s
   \<and> operator (handleMemoryAdd s) = operator s
   \<and> waitingForOperand (handleMemoryAdd s) = waitingForOperand s
   \<and> history (handleMemoryAdd s) = history s
   \<and> display (handleMemorySubtract s) = display s
   \<and> storedValue (handleMemorySubtract s) = storedValue s
   \<and> operator (handleMemorySubtract s) = operator s
   \<and> waitingForOperand (handleMemorySubtract s) = waitingForOperand s
   \<and> history (handleMemorySubtract s) = history s
   \<and> display (handleMemoryClear s) = display s
   \<and> storedValue (handleMemoryClear s) = storedValue s
   \<and> operator (handleMemoryClear s) = operator s
   \<and> waitingForOperand (handleMemoryClear s) = waitingForOperand s
   \<and> history (handleMemoryClear s) = history s
   \<and> display (inputDigit d (handleMemoryAdd s))
       = (if waitingForOperand s then d else if display s = ''0'' then d else display s @ d)
   \<and> waitingForOperand (handleMemoryRecall s) = True"
  by (simp add: handleMemoryAdd_def handleMemorySubtract_def handleMemoryClear_def
        handleMemoryRecall_def inputDigit_def)

section \<open>History\<close>

lemma history_exec:
  "history (exec c s) =
     (case c of
        PerformOperation next_op \<Rightarrow>
          (case storedValue s of
             None \<Rightarrow> history s
           | Some sv \<Rightarrow>
               (case operator s of
                  None \<Rightarrow> history s
                | Some op \<Rightarrow>
                    if op = [] then history s
                    else history s @
                      [history_line (or_zero sv) op (parseFloat (display s))
                         (switch_operator op (or_zero sv) (parseFloat (display s)))]))
      | _ \<Rightarrow> history s)"
  by (cases c)
     (simp_all add: handleMemoryClear_def handleMemoryRecall_def handleMemoryAdd_def
        handleMemorySubtract_def clearAll_def clearDisplay_def toggleSign_def inputPercent_def
        inputDot_def inputDigit_def performOperation_def Let_def split: option.split)

lemma history_exec_grows: "\<exists>ys. history (exec c s) = history s @ ys"
  by (simp add: history_exec split: command.split option.split)

lemma history_run_grows: "\<exists>ys. history (run cmds s) = history s @ ys"
proof (induction cmds arbitrary: s)
  case Nil
  show ?case by (simp add: run_Nil)
next
  case (Cons c cmds)
  obtain ys where a: "history (exec c s) = history s @ ys"
    using history_exec_grows by blast
  obtain zs where b: "history (run cmds (exec c s)) = history (exec c s) @ zs"
    using Cons.IH by blast
  show ?case using a b by (simp add: run_Cons)
qed

lemma run_two_entries:
  "history (run [InputDigit D3, PerformOperation ''+'', InputDigit D4,
                 PerformOperation times_key, InputDigit D2, PerformOperation ''='']
             initial) = [''3 + 4 = 7'', ''7 '' @ times_key @ '' 2 = 14'']"
  by code_simp

lemma run_pending_equals:
  "operator (run [InputDigit D3, PerformOperation ''+'', InputDigit D4, PerformOperation ''='']
              initial) = Some ''=''"
  by code_simp

lemma run_equals_entry:
  "history (run [InputDigit D3, PerformOperation ''+'', InputDigit D4, PerformOperation ''='',
                 PerformOperation ''+''] initial) = [''3 + 4 = 7'', ''7 = 7 = 7'']"
  by code_simp

text \<open>
  C6, as stated, fails: a history line is also appended when the pending operator is
  \<^verbatim>\<open>'='\<close>. After \<open>3 + 4 =\<close> the pending operator is \<^verbatim>\<open>'='\<close>, and pressing \<open>+\<close> then
  appends the line \<open>7 = 7 = 7\<close>, which records no operation of \<open>+ - \<times> \<div>\<close>.
\<close>

theorem history_entry_for_equals:
  "operator (run [InputDigit D3, PerformOperation ''+'', InputDigit D4, PerformOperation ''='']
              initial) = Some ''=''
   \<and> history (run [InputDigit D3, PerformOperation ''+'', InputDigit D4, PerformOperation ''='',
                     PerformOperation ''+''] initial) = [''3 + 4 = 7'', ''7 = 7 = 7'']"
  using run_pending_equals run_equals_entry by simp

text \<open>
  C6, amended. History is append-only and ordered: every run of commands leaves the old
  history as a prefix of the new one. Only \<^verbatim>\<open>performOperation\<close> changes it, and it appends
  exactly one line exactly when a value is stored and the pending operator is a non-empty
  string (one of \<open>+ - \<times> \<div>\<close>, or the \<^verbatim>\<open>'='\<close> left by the equals key). The line is the
  text \<^verbatim>\<open>left operator right = result\<close>, where left is \<^verbatim>\<open>storedValue || 0\<close>, right is the
  number read from the display and result is what the \<^verbatim>\<open>switch\<close> computed. After the two
  chained operations of \<open>3 + 4 \<times> 2 =\<close> the history is \<open>3 + 4 = 7\<close>, \<open>7 \<times> 2 = 14\<close>.
\<close>

theorem history_append_only:
  "(\<exists>ys. history (run cmds s) = history s @ ys)
   \<and> history (exec c s) =
       (case c of
          PerformOperation next_op \<Rightarrow>
            (case storedValue s of
               None \<Rightarrow> history s
             | Some sv \<Rightarrow>
                 (case operator s of
                    None \<Rightarrow> history s
                  | Some op \<Rightarrow>
                      if op = [] then history s
                      else history s @
                        [history_line (or_zero sv) op (parseFloat (display s))
                           (switch_operator op (or_zero sv) (parseFloat (display s)))]))
        | _ \<Rightarrow> history s)
   \<and> history (run [InputDigit D3, PerformOperation ''+'', InputDigit D4,
                     PerformOperation times_key, InputDigit D2, PerformOperation ''='']
                 initial) = [''3 + 4 = 7'', ''7 '' @ times_key @ '' 2 = 14'']"
  using history_run_grows [of cmds s] history_exec [of c s] run_two_entries by blast

section \<open>A display that is not a number\<close>

lemma js_add_NaN: "js_add x NaN = NaN"
  by (simp add: js_add_def)

lemma js_sub_NaN: "js_sub x NaN = NaN"
  by (simp add: js_sub_def js_add_def)

lemma js_mul_NaN: "js_mul x NaN = NaN"
  by (simp add: js_mul_def)

lemma js_div_NaN: "js_div x NaN = NaN"
  by (simp add: js_div_def)

lemma js_div_NaN_left: "js_div NaN y = NaN"
  by (simp add: js_div_def)

lemma switch_operator_NaN: "switch_operator op cv NaN = NaN"
  by (simp add: switch_operator_def js_add_NaN js_sub_NaN js_mul_NaN js_div_NaN)

lemma run_zero_by_zero:
  "display (run [PerformOperation divide_key, PerformOperation ''=''] initial) = ''NaN''"
  by code_simp

lemma parseFloat_NaN: "parseFloat ''NaN'' = NaN"
  by code_simp

lemma run_zero_by_zero_memory:
  "memory (run [PerformOperation divide_key, PerformOperation ''='', MemoryAdd] initial) = NaN"
  by code_simp

lemma run_zero_by_zero_toggle:
  "display (run [PerformOperation divide_key, PerformOperation ''='', ToggleSign] initial)
     = ''NaN''"
  by code_simp

text \<open>
  C9, as stated, fails: a display that does not parse is read as NaN, not as \<open>0\<close>.
  Pressing \<open>\<div> =\<close> from the initial state divides \<open>0\<close> by \<open>0\<close> and shows \<open>NaN\<close>, which
  \<^verbatim>\<open>parseFloat\<close> reads as NaN; \<^verbatim>\<open>handleMemoryAdd\<close> then makes the memory NaN (reading
  \<open>0\<close> would leave it at \<open>0\<close>) and \<^verbatim>\<open>toggleSign\<close> shows \<open>NaN\<close> (reading \<open>0\<close> would
  show \<open>0\<close>).
\<close>

theorem unparseable_display_not_zero:
  "display (run [PerformOperation divide_key, PerformOperation ''=''] initial) = ''NaN''
   \<and> parseFloat ''NaN'' = NaN
   \<and> memory (run [PerformOperation divide_key, PerformOperation ''='', MemoryAdd] initial) = NaN
   \<and> memory (run [PerformOperation divide_key, PerformOperation ''='', MemoryAdd] initial)
       \<noteq> Num 0
   \<and> display (run [PerformOperation divide_key, PerformOperation ''='', ToggleSign] initial)
       = ''NaN''"
  using run_zero_by_zero parseFloat_NaN run_zero_by_zero_memory run_zero_by_zero_toggle by simp

text \<open>
  C9, amended. When the display does not parse as a number, \<^verbatim>\<open>parseFloat\<close> yields NaN
  and every command that reads the display numerically carries the NaN on:
  \<^verbatim>\<open>toggleSign\<close> and \<^verbatim>\<open>inputPercent\<close> show \<open>NaN\<close>, \<^verbatim>\<open>handleMemoryAdd\<close> and
  \<^verbatim>\<open>handleMemorySubtract\<close> make the memory NaN, and \<^verbatim>\<open>performOperation\<close> stores NaN as
  the first operand, or shows and stores NaN when it resolves a pending operator. Every
  command is a total function on states: none throws.
\<close>

theorem unparseable_display_propagates:
  assumes "parseFloat (display s) = NaN"
  shows "display (toggleSign s) = ''NaN''
   \<and> display (inputPercent s) = ''NaN''
   \<and> memory (handleMemoryAdd s) = NaN
   \<and> memory (handleMemorySubtract s) = NaN
   \<and> storedValue (performOperation next_op s) =
        (case storedValue s of
           None \<Rightarrow> Some NaN
         | Some sv \<Rightarrow>
             (case operator s of
                None \<Rightarrow> Some sv
              | Some op \<Rightarrow> if op = [] then Some sv else Some NaN))
   \<and> display (performOperation next_op s) =
        (case storedValue s of
           None \<Rightarrow> display s
         | Some sv \<Rightarrow>
             (case operator s of
                None \<Rightarrow> display s
              | Some op \<Rightarrow> if op = [] then display s else ''NaN''))"
  using assms
  by (simp add: toggleSign_def inputPercent_def handleMemoryAdd_def handleMemorySubtract_def
        performOperation_def Let_def js_add_NaN js_sub_NaN js_div_NaN_left switch_operator_NaN
        split: option.split)

theorem unparseable_display_propagates_witness:
  "parseFloat (display (initial\<lparr>display := ''NaN''\<rparr>)) = NaN
   \<and> display (toggleSign (initial\<lparr>display := ''NaN''\<rparr>)) = ''NaN''
   \<and> memory (handleMemoryAdd (initial\<lparr>display := ''NaN''\<rparr>)) = NaN"
proof -
  have h: "parseFloat (display (initial\<lparr>display := ''NaN''\<rparr>)) = NaN"
    by (simp add: parseFloat_NaN)
  from unparseable_display_propagates [OF h] h show ?thesis by simp
qed

section \<open>The decimal point\<close>

lemma not_digit_dot: "\<not> is_digit CHR ''.''"
  by (simp add: is_digit_def)

lemma digits_of_no_dot: "CHR ''.'' \<notin> set (digits_of n)"
  using digits_of_all_digits not_digit_dot by blast

lemma count_take_drop: "x \<notin> set xs \<Longrightarrow> count_list (take n xs) x = 0 \<and> count_list (drop n xs) x = 0"
  by (meson count_notin in_set_takeD in_set_dropD)

lemma format_decimal_dots:
  assumes "CHR ''.'' \<notin> set ds"
  shows "count_list (format_decimal ds n) CHR ''.'' \<le> 1"
  using assms digits_of_no_dot [of "\<bar>n - 1\<bar>"] count_take_drop [OF assms]
  by (simp add: format_decimal_def Let_def count_notin)

lemma pos_to_string_dots: "count_list (pos_to_string q) CHR ''.'' \<le> 1"
  using format_decimal_dots [OF digits_of_no_dot]
  by (simp add: pos_to_string_def split: prod.split)

lemma js_String_dots: "count_list (js_String x) CHR ''.'' \<le> Suc 0"
proof (cases x)
  case (Num q)
  then show ?thesis
    using pos_to_string_dots [of q] pos_to_string_dots [of "- q"] by simp
qed simp_all

lemma digit_string_no_dot: "count_list (digit_string d) CHR ''.'' = 0"
  by (cases d) simp_all

lemma exec_one_dot: "one_dot s \<Longrightarrow> one_dot (exec c s)"
  by (cases c)
     (auto simp add: one_dot_def handleMemoryClear_def handleMemoryRecall_def handleMemoryAdd_def
        handleMemorySubtract_def clearAll_def clearDisplay_def toggleSign_def inputPercent_def
        inputDot_def inputDigit_def performOperation_def Let_def js_String_dots
        digit_string_no_dot count_notin split: option.split)

lemma run_one_dot: "one_dot s \<Longrightarrow> one_dot (run cmds s)"
  by (induction cmds arbitrary: s) (simp_all add: run_Nil run_Cons exec_one_dot)

lemma initial_one_dot: "one_dot initial"
  by (simp add: one_dot_def initial_def)

lemma inputDot_noop:
  "inputDot (s\<lparr>waitingForOperand := False, display := a @ ''.'' @ b\<rparr>)
     = s\<lparr>waitingForOperand := False, display := a @ ''.'' @ b\<rparr>"
  by (simp add: inputDot_def)


text \<open>
  C7. After every sequence of commands from the initial state the display holds at most
  one decimal point; and \<^verbatim>\<open>inputDot\<close> changes nothing when the display already holds a
  point and no new operand is awaited.
\<close>

theorem display_one_dot:
  "count_list (display (run cmds initial)) CHR ''.'' \<le> 1
   \<and> inputDot (s\<lparr>waitingForOperand := False, display := a @ ''.'' @ b\<rparr>)
       = s\<lparr>waitingForOperand := False, display := a @ ''.'' @ b\<rparr>"
  using run_one_dot [OF initial_one_dot, of cmds] inputDot_noop by (simp add: one_dot_def)

section \<open>Changing the sign twice\<close>

text \<open>
  C8. For every state whose display parses to a number (\<^verbatim>\<open>parseFloat\<close> does not return
  NaN), the display after two \<^verbatim>\<open>toggleSign\<close> parses to a number numerically equal to
  the one the original display parses to; and \<^verbatim>\<open>toggleSign\<close> on the display \<open>0\<close> leaves
  the display \<open>0\<close>.
\<close>

theorem toggleSign_involution:
  assumes "parseFloat (display s) \<noteq> NaN"
  shows "num_eq (parseFloat (display (toggleSign (toggleSign s)))) (parseFloat (display s))
         \<and> display (toggleSign (s\<lparr>display := ''0''\<rparr>)) = ''0''"
  using toggle_twice_number [OF is_double_parseFloat assms]
  by (simp add: toggleSign_def parseFloat_zero)

lemma parseFloat_five: "parseFloat ''5'' = Num 5"
  by code_simp

theorem toggleSign_involution_witness:
  "parseFloat (display (initial\<lparr>display := ''5''\<rparr>)) \<noteq> NaN
   \<and> num_eq (parseFloat (display (toggleSign (toggleSign (initial\<lparr>display := ''5''\<rparr>)))))
        (parseFloat (display (initial\<lparr>display := ''5''\<rparr>)))"
proof -
  have h: "parseFloat (display (initial\<lparr>display := ''5''\<rparr>)) \<noteq> NaN"
    by (simp add: parseFloat_five)
  from toggleSign_involution [OF h] h show ?thesis by simp
qed

end
